theory Spec2Isabelle
  imports Complex_Main "HOL-Library.Word"
begin

unbundle bit_operations_syntax

section \<open>JavaScript strings\<close>

text \<open>
  A JavaScript string is a sequence of UTF-16 code units. It is modelled as the list of
  its code units (each below 65536); \<open>js\<close> turns an ASCII literal into such a list.
\<close>

type_synonym jstring = "nat list"

definition js :: "string \<Rightarrow> jstring" where
  "js s = map of_char s"

section \<open>The collision-safe loop (\<open>Generator.safe\<close>, src/src/core/generator.ts)\<close>

text \<open>
  \<open>Generator.generate()\<close> draws random characters and the caller's
  \<open>checkFunction\<close> is an arbitrary asynchronous function, so both are effects on a
  world \<open>'w\<close> that is threaded through the loop. The loop records what it does in a
  trace: every call of the generator, every answer of the predicate and every
  \<open>setTimeout\<close> delay it awaits. The generator and the predicate are taken to return
  normally, and \<open>maxAttempts\<close> to be an integer. \<open>Slept d\<close> records the delay \<open>d\<close>
  that is passed to \<open>setTimeout\<close>; \<open>Math.pow(2, attempts)\<close> and \<open>100 * attempts\<close> are
  exact in doubles as long as the number of attempts stays below 1024.
\<close>

datatype backoff = Linear | Exponential

datatype event = Generated jstring | Checked jstring bool | Slept nat

datatype safe_error = CollisionExhausted int
  \<comment> \<open>\<open>Error("Failed to generate unique ID after ${maxAttempts} attempts")\<close>\<close>

record 'w CollisionStrategy =
  name :: jstring
  maxAttempts :: int
  backoffType :: backoff
  checkFunction :: "jstring \<Rightarrow> 'w \<Rightarrow> bool \<times> 'w"

definition backoff_delay :: "backoff \<Rightarrow> nat \<Rightarrow> nat" where
  "backoff_delay b attempts = (case b of Exponential \<Rightarrow> 2 ^ attempts | Linear \<Rightarrow> 100 * attempts)"

function safe_loop ::
  "('w \<Rightarrow> jstring \<times> 'w) \<Rightarrow> 'w CollisionStrategy \<Rightarrow> nat \<Rightarrow> 'w \<Rightarrow> event list
     \<Rightarrow> (safe_error + jstring) \<times> 'w \<times> event list" where
  "safe_loop generate options attempts w tr =
     (if int attempts < maxAttempts options then
        (case generate w of (ident, w1) \<Rightarrow>
          (case checkFunction options ident w1 of
             (True, w2) \<Rightarrow> (Inr ident, w2, tr @ [Generated ident, Checked ident True])
           | (False, w2) \<Rightarrow>
               safe_loop generate options (Suc attempts) w2
                 (tr @ [Generated ident, Checked ident False,
                        Slept (backoff_delay (backoffType options) (Suc attempts))])))
      else (Inl (CollisionExhausted (maxAttempts options)), w, tr))"
  by pat_completeness auto
termination
  by (relation "measure (\<lambda>(generate, options, attempts, w, tr). nat (maxAttempts options - int attempts))")
     auto

definition safe ::
  "('w \<Rightarrow> jstring \<times> 'w) \<Rightarrow> 'w CollisionStrategy \<Rightarrow> 'w
     \<Rightarrow> (safe_error + jstring) \<times> 'w \<times> event list" where
  "safe generate options w = safe_loop generate options 0 w []"

text \<open>The number of attempts of a run: how often the generator was called.\<close>

fun is_Generated :: "event \<Rightarrow> bool" where
  "is_Generated (Generated _) = True"
| "is_Generated _ = False"

fun is_Checked :: "event \<Rightarrow> bool" where
  "is_Checked (Checked _ _) = True"
| "is_Checked _ = False"

text \<open>
  The events of a run of rejected candidates \<open>rej\<close>, the first of them made when
  \<open>attempts\<close> rejections have already happened: each rejected candidate is generated,
  checked, and followed by the delay computed from the incremented counter.
\<close>

fun rejected_rounds :: "backoff \<Rightarrow> nat \<Rightarrow> jstring list \<Rightarrow> event list" where
  "rejected_rounds b attempts [] = []"
| "rejected_rounds b attempts (i # is) =
     [Generated i, Checked i False, Slept (backoff_delay b (Suc attempts))]
       @ rejected_rounds b (Suc attempts) is"

text \<open>Test doubles: a generator handing out the candidates of a list in turn (the world
  is the list of candidates still to come and the number of predicate calls so far), a
  predicate that always rejects and one that accepts from its second call on.\<close>

type_synonym test_world = "jstring list \<times> nat"

fun next_candidate :: "test_world \<Rightarrow> jstring \<times> test_world" where
  "next_candidate ([], n) = ([], ([], n))"
| "next_candidate (c # cs, n) = (c, (cs, n))"

definition always_reject :: "jstring \<Rightarrow> test_world \<Rightarrow> bool \<times> test_world" where
  "always_reject ident w = (False, (fst w, Suc (snd w)))"

definition accept_second :: "jstring \<Rightarrow> test_world \<Rightarrow> bool \<times> test_world" where
  "accept_second ident w = (1 \<le> snd w, (fst w, Suc (snd w)))"

definition strategy :: "int \<Rightarrow> backoff \<Rightarrow> (jstring \<Rightarrow> 'w \<Rightarrow> bool \<times> 'w) \<Rightarrow> 'w CollisionStrategy" where
  "strategy n b chk = \<lparr>name = js ''test'', maxAttempts = n, backoffType = b, checkFunction = chk\<rparr>"

section \<open>JavaScript values and exceptions\<close>

text \<open>
  The exceptions the modelled code can meet: the built-in error classes, the
  \<open>InvalidCharacterError\<close> of \<open>atob\<close> and \<open>btoa\<close>, and \<open>new Error(message)\<close>
  thrown by the code itself. A function that can throw returns \<open>js_error + 'a\<close>.
\<close>

datatype js_error =
    RangeError
  | TypeError
  | SyntaxError
  | InvalidCharacterError
  | ThrownError jstring

text \<open>A value that the code treats as a string but that may be \<open>undefined\<close> at run time.\<close>

datatype jsval = Undefined | Str jstring

text \<open>The result of \<open>JSON.parse\<close>. A number keeps its lexeme; an object keeps its
  members in source order (a later duplicate of a key overrides an earlier one).\<close>

datatype json =
    JNull
  | JBool bool
  | JNum jstring
  | JStr jstring
  | JArr "json list"
  | JObj "(jstring \<times> json) list"

section \<open>Random strings (\<open>Generator.generateRandomString\<close>, src/src/core/generator.ts)\<close>

text \<open>
  \<open>Math.random() * alphabet.length\<close> is a product of two doubles: the exact product
  rounded to the nearest double, ties to the even significand. Both factors are
  non-negative and the product is far below the overflow threshold, so \<open>round_double\<close>
  is written for non-negative rationals: \<open>binade x\<close> is the exponent \<open>e\<close> with
  \<open>2^e \<le> x < 2^(e+1)\<close>, the doubles of that binade are the multiples of \<open>2^(e-52)\<close>,
  and below \<open>2^-1022\<close> they are the multiples of \<open>2^-1074\<close>.
\<close>

fun bit_length :: "nat \<Rightarrow> nat" where
  "bit_length n = (if n = 0 then 0 else Suc (bit_length (n div 2)))"

declare bit_length.simps [simp del]

definition pow2 :: "int \<Rightarrow> rat" where
  "pow2 e = (if 0 \<le> e then 2 ^ nat e else 1 / 2 ^ nat (- e))"

definition binade :: "rat \<Rightarrow> int" where
  "binade x =
     (let d = int (bit_length (nat (fst (quotient_of x)))) - int (bit_length (nat (snd (quotient_of x))))
      in if pow2 d \<le> x then d else d - 1)"

definition round_half_even :: "rat \<Rightarrow> int" where
  "round_half_even m =
     (let f = \<lfloor>m\<rfloor>; r = m - of_int f
      in if r < 1 / 2 then f
         else if 1 / 2 < r then f + 1
         else if even f then f else f + 1)"

definition round_double :: "rat \<Rightarrow> rat" where
  "round_double x =
     (if x \<le> 0 then 0
      else (let q = pow2 (max (binade x) (- 1022) - 52)
            in of_int (round_half_even (x / q)) * q))"

text \<open>
  \<open>Array.from({ length }, () => alphabet[Math.floor(Math.random() * alphabet.length)]).join("")\<close>.
  The draws of \<open>Math.random()\<close> are an oracle \<open>rnd\<close>: \<open>rnd i\<close> is the value of the
  \<open>i\<close>th call, a double in \<open>[0, 1)\<close>. \<open>Array.from\<close> clamps a negative length to 0
  and throws a RangeError when the length exceeds \<open>2^32 - 1\<close>. Indexing a string out of
  range gives \<open>undefined\<close>, which \<open>join\<close> renders as the empty string.
\<close>

definition random_char :: "jstring \<Rightarrow> rat \<Rightarrow> jstring" where
  "random_char alphabet r =
     (let idx = \<lfloor>round_double (r * of_nat (length alphabet))\<rfloor>
      in if 0 \<le> idx \<and> idx < int (length alphabet) then [alphabet ! nat idx] else [])"

definition generateRandomString :: "(nat \<Rightarrow> rat) \<Rightarrow> int \<Rightarrow> jstring \<Rightarrow> js_error + jstring" where
  "generateRandomString rnd len alphabet =
     (if 2 ^ 32 - 1 < len then Inl RangeError
      else Inr (concat (map (\<lambda>i. random_char alphabet (rnd i)) [0 ..< nat len])))"

section \<open>The processor interface (\<open>__processor__\<close>, src/unnamed/part_002)\<close>

text \<open>
  The functions of \<open>__processor__\<close> that the encoder and the pipeline call. The
  encoding argument has the type \<open>'e\<close> of whatever the caller passes at run time.
  \<open>encodeMultiple\<close> returns the \<open>encoded\<close> fields of its \<open>results\<close> array.
\<close>

record 'e processor =
  encode_fn :: "jsval \<Rightarrow> 'e \<Rightarrow> js_error + jsval"
  decode_fn :: "jsval \<Rightarrow> 'e \<Rightarrow> js_error + jsval"
  encodeMultiple_fn :: "jsval \<Rightarrow> 'e list \<Rightarrow> js_error + jsval list"
  autoDetectAndDecode_fn :: "jsval \<Rightarrow> js_error + jsval"

section \<open>\<open>Encoder.decode\<close> (src/unnamed/part_003)\<close>

text \<open>
  The \<open>encodings\<close> argument is a single encoding or an array. An array is passed by
  reference, and \<open>encodingArray.reverse()\<close> reverses it in place, so arrays live in a
  store and the call returns the store it leaves behind. A single encoding is wrapped in
  a fresh array that nobody else can reach.
\<close>

type_synonym addr = nat

type_synonym 'e store = "addr \<rightharpoonup> 'e list"

datatype 'e encodings_arg = OneEncoding 'e | EncodingArray addr

fun decode_each :: "'e processor \<Rightarrow> bool \<Rightarrow> 'e list \<Rightarrow> jsval \<Rightarrow> js_error + jsval" where
  "decode_each P autoDetect [] result = Inr result"
| "decode_each P autoDetect (encoding # rest) result =
     (case (if autoDetect then autoDetectAndDecode_fn P result
            else decode_fn P result encoding) of
        Inl e \<Rightarrow> Inl e
      | Inr r \<Rightarrow> decode_each P autoDetect rest r)"

definition Encoder_decode ::
  "'e processor \<Rightarrow> 'e store \<Rightarrow> jsval \<Rightarrow> 'e encodings_arg \<Rightarrow> bool
     \<Rightarrow> 'e store \<times> (js_error + jsval)" where
  "Encoder_decode P heap input encodings autoDetect =
     (case encodings of
        OneEncoding e \<Rightarrow> (heap, decode_each P autoDetect (rev [e]) input)
      | EncodingArray a \<Rightarrow>
          (case heap a of
             None \<Rightarrow> (heap, Inl TypeError)
           | Some encodingArray \<Rightarrow>
               (heap(a \<mapsto> rev encodingArray),
                decode_each P autoDetect (rev encodingArray) input)))"

text \<open>A test double: a processor that knows one encoding, which appends a marker
  character on encoding and strips the last character on decoding.\<close>

definition mark_processor :: "nat processor" where
  "mark_processor =
     \<lparr>encode_fn = (\<lambda>v e. case v of Str s \<Rightarrow> Inr (Str (s @ [e])) | Undefined \<Rightarrow> Inl TypeError),
      decode_fn = (\<lambda>v e. case v of Str s \<Rightarrow>
                      (if s \<noteq> [] \<and> last s = e then Inr (Str (butlast s)) else Inl (ThrownError []))
                    | Undefined \<Rightarrow> Inl TypeError),
      encodeMultiple_fn = (\<lambda>v es. Inr []),
      autoDetectAndDecode_fn = (\<lambda>v. Inr v)\<rparr>"

section \<open>Checksums (\<open>Checksum\<close>, src/src/mods/checksum.ts)\<close>

text \<open>
  The bitwise operators of JavaScript work on 32-bit integers, so the hashes are
  computed on \<open>32 word\<close>; \<open>>>> 0\<close> reads the word as an unsigned number.
\<close>

type_synonym u32 = "32 word"

datatype ChecksumError =
    InputTooLong
  | InvalidAlgorithm
  | LengthNotInteger
  | LengthOutOfRange
  | UnsupportedAlgorithm
  | ChecksumEmpty
  | ChecksumInvalidCharacters

definition MAX_INPUT_LENGTH :: nat where
  "MAX_INPUT_LENGTH = 1000000"

definition MIN_CHECKSUM_LENGTH :: rat where
  "MIN_CHECKSUM_LENGTH = 1"

definition MAX_CHECKSUM_LENGTH :: rat where
  "MAX_CHECKSUM_LENGTH = 16"

definition VALID_ALGORITHMS :: "jstring list" where
  "VALID_ALGORITHMS = [js ''djb2'', js ''crc32'', js ''adler32'', js ''fnv1a'', js ''murmur3'']"

text \<open>
  \<open>validateInput\<close>. The input is a string by its type, so the null, undefined and
  type checks have no branch here. The length is a JavaScript number, modelled as a
  rational: \<open>Number.isInteger\<close> fails on a fraction (NaN and the infinities, which fail
  the same check, are not modelled).
\<close>

definition validateInput :: "jstring \<Rightarrow> jstring \<Rightarrow> rat \<Rightarrow> ChecksumError option" where
  "validateInput input algorithm len =
     (if MAX_INPUT_LENGTH < length input then Some InputTooLong
      else if algorithm \<notin> set VALID_ALGORITHMS then Some InvalidAlgorithm
      else if of_int \<lfloor>len\<rfloor> \<noteq> len then Some LengthNotInteger
      else if len < MIN_CHECKSUM_LENGTH \<or> MAX_CHECKSUM_LENGTH < len then Some LengthOutOfRange
      else None)"

definition djb2 :: "jstring \<Rightarrow> nat" where
  "djb2 str = unat (fold (\<lambda>charCode (hash :: u32). push_bit 5 hash + hash + of_nat charCode) str 5381)"

text \<open>The CRC table and its cache, a static field that \<open>getCRCTable\<close> fills on its
  first call.\<close>

definition crc_step :: "u32 \<Rightarrow> u32" where
  "crc_step c = (if c AND 1 \<noteq> 0 then 0xedb88320 XOR drop_bit 1 c else drop_bit 1 c)"

definition crc_entry :: "nat \<Rightarrow> u32" where
  "crc_entry i = (crc_step ^^ 8) (of_nat i)"

definition build_crc_table :: "u32 list" where
  "build_crc_table = map crc_entry [0 ..< 256]"

type_synonym crc_cache = "u32 list option"

definition getCRCTable :: "crc_cache \<Rightarrow> u32 list \<times> crc_cache" where
  "getCRCTable crcTableCache =
     (case crcTableCache of
        Some table \<Rightarrow> (table, crcTableCache)
      | None \<Rightarrow> (build_crc_table, Some build_crc_table))"

text \<open>Reading an array beyond its end gives \<open>undefined\<close>, which \<open>^\<close> takes as 0.\<close>

definition table_at :: "u32 list \<Rightarrow> nat \<Rightarrow> u32" where
  "table_at table i = (if i < length table then table ! i else 0)"

definition crc32 :: "crc_cache \<Rightarrow> jstring \<Rightarrow> nat \<times> crc_cache" where
  "crc32 cache str =
     (case getCRCTable cache of (crcTable, cache') \<Rightarrow>
        (unat (fold (\<lambda>charCode (crc :: u32).
                   let byte = of_nat charCode AND 0xff
                   in drop_bit 8 crc XOR table_at crcTable (unat ((crc XOR byte) AND 0xff)))
                 str 0xffffffff
               XOR 0xffffffff),
         cache'))"

definition MOD_ADLER :: nat where
  "MOD_ADLER = 65521"

definition adler32 :: "jstring \<Rightarrow> nat" where
  "adler32 str =
     (case fold (\<lambda>charCode (a, b).
                   let a' = (a + charCode) mod MOD_ADLER in (a', (b + a') mod MOD_ADLER))
                str (1, 0) of
        (a, b) \<Rightarrow> unat (push_bit 16 (of_nat b :: u32) OR of_nat a))"

definition fnv1a :: "jstring \<Rightarrow> nat" where
  "fnv1a str = unat (fold (\<lambda>charCode (hash :: u32). (hash XOR of_nat charCode) * 16777619) str 2166136261)"

text \<open>\<open>new TextEncoder().encode(str)\<close>: the UTF-8 bytes of the string; a surrogate pair is
  one code point of four bytes, a lone surrogate is replaced by U+FFFD.\<close>

definition is_high_surrogate :: "nat \<Rightarrow> bool" where
  "is_high_surrogate c \<longleftrightarrow> 0xD800 \<le> c \<and> c \<le> 0xDBFF"

definition is_low_surrogate :: "nat \<Rightarrow> bool" where
  "is_low_surrogate c \<longleftrightarrow> 0xDC00 \<le> c \<and> c \<le> 0xDFFF"

definition utf8_of_code_point :: "nat \<Rightarrow> nat list" where
  "utf8_of_code_point cp =
     (if cp < 0x80 then [cp]
      else if cp < 0x800 then [0xC0 + cp div 64, 0x80 + cp mod 64]
      else if cp < 0x10000 then [0xE0 + cp div 4096, 0x80 + cp div 64 mod 64, 0x80 + cp mod 64]
      else [0xF0 + cp div 262144, 0x80 + cp div 4096 mod 64, 0x80 + cp div 64 mod 64,
            0x80 + cp mod 64])"

fun utf8_encode :: "jstring \<Rightarrow> nat list" where
  "utf8_encode [] = []"
| "utf8_encode [c] =
     (if is_high_surrogate c \<or> is_low_surrogate c then [0xEF, 0xBF, 0xBD]
      else utf8_of_code_point c)"
| "utf8_encode (c # d # rest) =
     (if is_high_surrogate c \<and> is_low_surrogate d
        then utf8_of_code_point (0x10000 + (c - 0xD800) * 1024 + (d - 0xDC00)) @ utf8_encode rest
      else if is_high_surrogate c \<or> is_low_surrogate c
        then [0xEF, 0xBF, 0xBD] @ utf8_encode (d # rest)
      else utf8_of_code_point c @ utf8_encode (d # rest))"

definition murmur_k :: "u32 \<Rightarrow> u32" where
  "murmur_k k0 =
     (let k = k0 * 0xcc9e2d51;
          k = push_bit 15 k OR drop_bit (32 - 15) k
      in k * 0x1b873593)"

fun murmur3_chunks :: "nat list \<Rightarrow> u32 \<Rightarrow> u32" where
  "murmur3_chunks (b0 # b1 # b2 # b3 # rest) hash =
     (let k = of_nat b0 OR push_bit 8 (of_nat b1) OR push_bit 16 (of_nat b2)
                OR push_bit 24 (of_nat b3);
          hash = hash XOR murmur_k k;
          hash = push_bit 13 hash OR drop_bit (32 - 13) hash
      in murmur3_chunks rest (hash * 5 + 0xe6546b64))"
| "murmur3_chunks bytes hash = hash"

definition byte_at :: "nat list \<Rightarrow> nat \<Rightarrow> u32" where
  "byte_at bytes i = (if i < length bytes then of_nat (bytes ! i) else 0)"

definition murmur3 :: "jstring \<Rightarrow> nat" where
  "murmur3 str =
     (let bytes = utf8_encode str;
          len = length bytes;
          hash = murmur3_chunks bytes 0;
          remainder = len mod 4;
          k = (0 :: u32);
          k = (if 3 \<le> remainder then k XOR push_bit 16 (byte_at bytes (len - 3)) else k);
          k = (if 2 \<le> remainder then k XOR push_bit 8 (byte_at bytes (len - 2)) else k);
          hash = (if 1 \<le> remainder then hash XOR murmur_k (k XOR byte_at bytes (len - 1)) else hash);
          hash = hash XOR of_nat len;
          hash = hash XOR drop_bit 16 hash;
          hash = hash * 0x85ebca6b;
          hash = hash XOR drop_bit 13 hash;
          hash = hash * 0xc2b2ae35;
          hash = hash XOR drop_bit 16 hash
      in unat hash)"

text \<open>\<open>Math.abs(hash).toString(36)\<close>: the hash is a non-negative integer below
  \<open>2^32\<close>, so it is finite, \<open>Math.abs\<close> leaves it unchanged and the rendering is
  the list of its base-36 digits.\<close>

definition digit36 :: "nat \<Rightarrow> nat" where
  "digit36 d = (if d < 10 then 48 + d else 87 + d)"

fun toString36 :: "nat \<Rightarrow> jstring" where
  "toString36 n = (if n < 36 then [digit36 n] else toString36 (n div 36) @ [digit36 (n mod 36)])"

declare toString36.simps [simp del]

definition padStart :: "jstring \<Rightarrow> nat \<Rightarrow> nat \<Rightarrow> jstring" where
  "padStart s targetLength fill = replicate (targetLength - length s) fill @ s"

definition compute_hash :: "crc_cache \<Rightarrow> jstring \<Rightarrow> jstring \<Rightarrow> (ChecksumError + nat) \<times> crc_cache" where
  "compute_hash cache algorithm input =
     (if algorithm = js ''djb2'' then (Inr (djb2 input), cache)
      else if algorithm = js ''crc32'' then (case crc32 cache input of (h, cache') \<Rightarrow> (Inr h, cache'))
      else if algorithm = js ''adler32'' then (Inr (adler32 input), cache)
      else if algorithm = js ''fnv1a'' then (Inr (fnv1a input), cache)
      else if algorithm = js ''murmur3'' then (Inr (murmur3 input), cache)
      else (Inl UnsupportedAlgorithm, cache))"

definition format_hash :: "nat \<Rightarrow> nat \<Rightarrow> jstring" where
  "format_hash hash len =
     (let hashStr = toString36 hash
      in if length hashStr < len then padStart hashStr len 48 else take len hashStr)"

definition Checksum_generate :: "crc_cache \<Rightarrow> jstring \<Rightarrow> jstring \<Rightarrow> rat \<Rightarrow> (ChecksumError + jstring) \<times> crc_cache" where
  "Checksum_generate cache input algorithm len =
     (case validateInput input algorithm len of
        Some err \<Rightarrow> (Inl err, cache)
      | None \<Rightarrow>
          (case compute_hash cache algorithm input of
             (Inl err, cache') \<Rightarrow> (Inl err, cache')
           | (Inr hash, cache') \<Rightarrow> (Inr (format_hash hash (nat \<lfloor>len\<rfloor>)), cache')))"

text \<open>
  \<open>validate\<close>. The checksum is a string by its type. The format test is
  \<open>/^[0-9a-z]+$/i\<close>; \<open>toLowerCase\<close> is modelled on the ASCII letters, which is all
  that a digest and a checksum that passed the format test contain.
\<close>

definition is_base36_char :: "nat \<Rightarrow> bool" where
  "is_base36_char c \<longleftrightarrow> (48 \<le> c \<and> c \<le> 57) \<or> (97 \<le> c \<and> c \<le> 122) \<or> (65 \<le> c \<and> c \<le> 90)"

definition toLowerCase :: "jstring \<Rightarrow> jstring" where
  "toLowerCase s = map (\<lambda>c. if 65 \<le> c \<and> c \<le> 90 then c + 32 else c) s"

definition Checksum_validate ::
  "crc_cache \<Rightarrow> jstring \<Rightarrow> jstring \<Rightarrow> jstring \<Rightarrow> rat \<Rightarrow> (ChecksumError + bool) \<times> crc_cache" where
  "Checksum_validate cache input checksum algorithm len =
     (if length checksum = 0 then (Inl ChecksumEmpty, cache)
      else if \<not> list_all is_base36_char checksum then (Inl ChecksumInvalidCharacters, cache)
      else (case Checksum_generate cache input algorithm len of
              (Inl err, cache') \<Rightarrow> (Inl err, cache')
            | (Inr expected, cache') \<Rightarrow> (Inr (toLowerCase expected = toLowerCase checksum), cache')))"

text \<open>The states the cache can be in: empty, or holding the table.\<close>

definition cache_ok :: "crc_cache \<Rightarrow> bool" where
  "cache_ok cache \<longleftrightarrow> cache = None \<or> cache = Some build_crc_table"

section \<open>Base64: \<open>btoa\<close> and \<open>atob\<close>\<close>

text \<open>
  The two built-in functions of the platform. \<open>btoa\<close> throws an
  \<open>InvalidCharacterError\<close> when a code unit of its argument exceeds 255. \<open>atob\<close>
  follows the forgiving-base64 decoding of the HTML standard: ASCII whitespace is
  removed, up to two padding characters are dropped when the length is a multiple of 4,
  and it throws when the remaining length is 1 modulo 4 or a character is outside the
  alphabet.
\<close>

definition b64_char :: "nat \<Rightarrow> nat" where
  "b64_char i =
     (if i < 26 then 65 + i
      else if i < 52 then 97 + (i - 26)
      else if i < 62 then 48 + (i - 52)
      else if i = 62 then 43
      else 47)"

definition b64_value :: "nat \<Rightarrow> nat option" where
  "b64_value c =
     (if 65 \<le> c \<and> c \<le> 90 then Some (c - 65)
      else if 97 \<le> c \<and> c \<le> 122 then Some (c - 97 + 26)
      else if 48 \<le> c \<and> c \<le> 57 then Some (c - 48 + 52)
      else if c = 43 then Some 62
      else if c = 47 then Some 63
      else None)"

fun b64_encode :: "nat list \<Rightarrow> jstring" where
  "b64_encode [] = []"
| "b64_encode [a] = [b64_char (a div 4), b64_char (a mod 4 * 16), 61, 61]"
| "b64_encode [a, b] =
     [b64_char (a div 4), b64_char (a mod 4 * 16 + b div 16), b64_char (b mod 16 * 4), 61]"
| "b64_encode (a # b # c # rest) =
     [b64_char (a div 4), b64_char (a mod 4 * 16 + b div 16),
      b64_char (b mod 16 * 4 + c div 64), b64_char (c mod 64)] @ b64_encode rest"

definition btoa :: "jstring \<Rightarrow> js_error + jstring" where
  "btoa s = (if \<exists>c \<in> set s. 255 < c then Inl InvalidCharacterError else Inr (b64_encode s))"

fun b64_decode :: "nat list \<Rightarrow> nat list" where
  "b64_decode (a # b # c # d # rest) =
     [a * 4 + b div 16, b mod 16 * 16 + c div 4, c mod 4 * 64 + d] @ b64_decode rest"
| "b64_decode [a, b, c] = [a * 4 + b div 16, b mod 16 * 16 + c div 4]"
| "b64_decode [a, b] = [a * 4 + b div 16]"
| "b64_decode _ = []"

definition ascii_whitespace :: "nat \<Rightarrow> bool" where
  "ascii_whitespace c \<longleftrightarrow> c = 9 \<or> c = 10 \<or> c = 12 \<or> c = 13 \<or> c = 32"

definition strip_padding :: "jstring \<Rightarrow> jstring" where
  "strip_padding d =
     (if length d mod 4 = 0 \<and> d \<noteq> [] \<and> last d = 61 then
        (if butlast d \<noteq> [] \<and> last (butlast d) = 61 then butlast (butlast d) else butlast d)
      else d)"

definition atob :: "jstring \<Rightarrow> js_error + jstring" where
  "atob s =
     (let d = strip_padding (filter (\<lambda>c. \<not> ascii_whitespace c) s)
      in if length d mod 4 = 1 then Inl InvalidCharacterError
         else if \<exists>c \<in> set d. b64_value c = None then Inl InvalidCharacterError
         else Inr (b64_decode (map (\<lambda>c. the (b64_value c)) d)))"

section \<open>\<open>Encoder.compress\<close> and \<open>Encoder.decompress\<close> (src/unnamed/part_003)\<close>

text \<open>
  The \<open>method\<close> argument is whatever value reaches the \<open>switch\<close> at run time:
  the strings \<open>lz77\<close> and \<open>gzip\<close> select a scheme, every other value (also
  \<open>undefined\<close>, here \<open>None\<close>) takes the default branch.
\<close>

function match_length :: "jstring \<Rightarrow> nat \<Rightarrow> nat \<Rightarrow> nat \<Rightarrow> nat" where
  "match_length input i offset len =
     (if i + len < length input \<and> input ! (i - offset + len) = input ! (i + len) \<and> len < 255
      then match_length input i offset (Suc len)
      else len)"
  by pat_completeness auto
termination
  by (relation "measure (\<lambda>(input, i, offset, len). 255 - len)") auto

declare match_length.simps [simp del]

text \<open>The search over the offsets \<open>1 .. searchLimit\<close>; a later offset replaces the best
  match only when its match is strictly longer.\<close>

fun find_match :: "jstring \<Rightarrow> nat \<Rightarrow> nat list \<Rightarrow> nat \<times> nat \<Rightarrow> nat \<times> nat" where
  "find_match input i [] best = best"
| "find_match input i (offset # offsets) (maxLength, maxOffset) =
     (let len = match_length input i offset 0
      in if maxLength < len then find_match input i offsets (len, offset)
         else find_match input i offsets (maxLength, maxOffset))"

definition longest_match :: "jstring \<Rightarrow> nat \<Rightarrow> nat \<times> nat" where
  "longest_match input i = find_match input i [1 ..< Suc (min i 255)] (0, 0)"

function lz77_compress :: "jstring \<Rightarrow> nat \<Rightarrow> jstring \<Rightarrow> jstring" where
  "lz77_compress input i compressed =
     (if i < length input then
        (case longest_match input i of (maxLength, maxOffset) \<Rightarrow>
           if 4 \<le> maxLength
             then lz77_compress input (i + maxLength) (compressed @ [0xff, maxOffset, maxLength])
           else if input ! i = 0xff
             then lz77_compress input (Suc i) (compressed @ [0xff, 0])
           else lz77_compress input (Suc i) (compressed @ [input ! i]))
      else compressed)"
  by pat_completeness auto
termination
  by (relation "measure (\<lambda>(input, i, compressed). length input - i)") auto

declare lz77_compress.simps [simp del]

text \<open>
  The dictionary of the \<open>gzip\<close> scheme is an object used as a map from strings to
  codes. (Members inherited from \<open>Object.prototype\<close>, which a lookup of a key such as
  \<open>constructor\<close> would find, are not modelled.) A lookup of a missing key gives
  \<open>undefined\<close>, here \<open>None\<close>, and \<open>String.fromCharCode(undefined)\<close> is the character 0.
\<close>

definition initial_dictionary :: "jstring \<rightharpoonup> nat" where
  "initial_dictionary s = (case s of [c] \<Rightarrow> if c < 256 then Some c else None | _ \<Rightarrow> None)"

fun lzw_compress ::
  "jstring \<Rightarrow> (jstring \<rightharpoonup> nat) \<Rightarrow> nat \<Rightarrow> jstring \<Rightarrow> nat option list \<Rightarrow> nat option list" where
  "lzw_compress [] dictionary nextCode currentSequence result =
     (if currentSequence \<noteq> [] then result @ [dictionary currentSequence] else result)"
| "lzw_compress (char # rest) dictionary nextCode currentSequence result =
     (let newSequence = currentSequence @ [char]
      in if dictionary newSequence \<noteq> None
           then lzw_compress rest dictionary nextCode newSequence result
         else if nextCode < 65536
           then lzw_compress rest (dictionary(newSequence \<mapsto> nextCode)) (Suc nextCode) [char]
                  (result @ [dictionary currentSequence])
         else lzw_compress rest dictionary nextCode [char] (result @ [dictionary currentSequence]))"

definition fromCharCode :: "nat option \<Rightarrow> nat" where
  "fromCharCode code = (case code of None \<Rightarrow> 0 | Some n \<Rightarrow> n mod 65536)"

definition Encoder_compress :: "jsval \<Rightarrow> json option \<Rightarrow> js_error + jsval" where
  "Encoder_compress input method =
     (case input of
        Undefined \<Rightarrow> Inr (Str [])
      | Str s \<Rightarrow>
          if s = [] then Inr (Str [])
          else if method = Some (JStr (js ''lz77'')) then
            (case btoa (lz77_compress s 0 []) of Inl e \<Rightarrow> Inl e | Inr b \<Rightarrow> Inr (Str b))
          else if method = Some (JStr (js ''gzip'')) then
            (case btoa (map fromCharCode (lzw_compress s initial_dictionary 256 [] [])) of
               Inl e \<Rightarrow> Inl e
             | Inr b \<Rightarrow> Inr (Str b))
          else Inr input)"

text \<open>Reading a string out of range gives \<open>undefined\<close>, and appending \<open>undefined\<close> to a
  string appends the nine characters of its name.\<close>

definition char_at :: "jstring \<Rightarrow> int \<Rightarrow> jstring" where
  "char_at s idx = (if 0 \<le> idx \<and> idx < int (length s) then [s ! nat idx] else js ''undefined'')"

fun lz77_copy :: "int \<Rightarrow> nat \<Rightarrow> nat \<Rightarrow> jstring \<Rightarrow> jstring" where
  "lz77_copy start j 0 decompressed = decompressed"
| "lz77_copy start j (Suc k) decompressed =
     lz77_copy start (Suc j) k (decompressed @ char_at decompressed (start + int j))"

function lz77_decompress :: "jstring \<Rightarrow> nat \<Rightarrow> jstring \<Rightarrow> jstring" where
  "lz77_decompress compressed i decompressed =
     (if i < length compressed then
        (if compressed ! i = 0xff then
           (if Suc i < length compressed \<and> compressed ! Suc i = 0
              then lz77_decompress compressed (i + 2) (decompressed @ [0xff])
            else if Suc i + 1 < length compressed
              then lz77_decompress compressed (i + 3)
                     (lz77_copy (int (length decompressed) - int (compressed ! Suc i)) 0
                        (compressed ! (Suc i + 1)) decompressed)
            else lz77_decompress compressed (Suc i) decompressed)
         else lz77_decompress compressed (Suc i) (decompressed @ [compressed ! i]))
      else decompressed)"
  by pat_completeness auto
termination
  by (relation "measure (\<lambda>(compressed, i, decompressed). length compressed - i)") auto

declare lz77_decompress.simps [simp del]

text \<open>The dictionary of the decompressor is an array; \<open>nextCode\<close> is always its length,
  so \<open>dictionary[nextCode++] = s\<close> appends. The codes are the code units that \<open>atob\<close>
  returned, all below 256, so \<open>dictionary[codes[0]]\<close> is the one-character string of
  the first code; with no code at all the result is \<open>undefined\<close>.\<close>

definition first_char :: "jstring \<Rightarrow> jstring" where
  "first_char s = char_at s 0"

fun lzw_decompress ::
  "nat list \<Rightarrow> jstring list \<Rightarrow> nat \<Rightarrow> jstring \<Rightarrow> jstring \<Rightarrow> js_error + jstring" where
  "lzw_decompress [] dictionary nextCode character result = Inr result"
| "lzw_decompress (code # codes) dictionary nextCode character result =
     (if code < length dictionary \<or> code = nextCode then
        (let entry = (if code < length dictionary then dictionary ! code
                      else character @ first_char character)
         in if nextCode < 65536
              then lzw_decompress codes (dictionary @ [character @ first_char entry]) (Suc nextCode)
                     entry (result @ entry)
            else lzw_decompress codes dictionary nextCode entry (result @ entry))
      else Inl (ThrownError (js ''Invalid code'')))"

definition Encoder_decompress :: "jsval \<Rightarrow> json option \<Rightarrow> jsval" where
  "Encoder_decompress input method =
     (case input of
        Undefined \<Rightarrow> Str []
      | Str s \<Rightarrow>
          if s = [] then Str []
          else if method = Some (JStr (js ''lz77'')) then
            (case atob s of
               Inl e \<Rightarrow> input
             | Inr compressed \<Rightarrow> Str (lz77_decompress compressed 0 []))
          else if method = Some (JStr (js ''gzip'')) then
            (case atob s of
               Inl e \<Rightarrow> input
             | Inr compressed \<Rightarrow>
                 (case compressed of
                    [] \<Rightarrow> Undefined
                  | oldCode # codes \<Rightarrow>
                      (case lzw_decompress codes (map (\<lambda>i. [i]) [0 ..< 256]) 256 [oldCode] [oldCode] of
                         Inl e \<Rightarrow> input
                       | Inr result \<Rightarrow> Str result)))
          else input)"

section \<open>JSON: \<open>JSON.stringify\<close> and \<open>JSON.parse\<close>\<close>

definition hex_digit :: "nat \<Rightarrow> nat" where
  "hex_digit d = (if d < 10 then 48 + d else 87 + d)"

definition unicode_escape :: "nat \<Rightarrow> jstring" where
  "unicode_escape c =
     [92, 117, hex_digit (c div 4096 mod 16), hex_digit (c div 256 mod 16),
      hex_digit (c div 16 mod 16), hex_digit (c mod 16)]"

definition quote_char :: "nat \<Rightarrow> jstring" where
  "quote_char c =
     (if c = 34 then [92, 34]
      else if c = 92 then [92, 92]
      else if c = 8 then [92, 98]
      else if c = 12 then [92, 102]
      else if c = 10 then [92, 110]
      else if c = 13 then [92, 114]
      else if c = 9 then [92, 116]
      else if c < 32 then unicode_escape c
      else [c])"

fun quote_chars :: "jstring \<Rightarrow> jstring" where
  "quote_chars [] = []"
| "quote_chars [c] =
     (if is_high_surrogate c \<or> is_low_surrogate c then unicode_escape c else quote_char c)"
| "quote_chars (c # d # rest) =
     (if is_high_surrogate c \<and> is_low_surrogate d then [c, d] @ quote_chars rest
      else if is_high_surrogate c \<or> is_low_surrogate c then unicode_escape c @ quote_chars (d # rest)
      else quote_char c @ quote_chars (d # rest))"

definition quote :: "jstring \<Rightarrow> jstring" where
  "quote s = [34] @ quote_chars s @ [34]"

fun join :: "jstring \<Rightarrow> jstring list \<Rightarrow> jstring" where
  "join sep [] = []"
| "join sep [s] = s"
| "join sep (s # t # rest) = s @ sep @ join sep (t # rest)"

text \<open>A number is rendered by its lexeme.\<close>

fun stringify :: "json \<Rightarrow> jstring" where
  "stringify JNull = js ''null''"
| "stringify (JBool b) = (if b then js ''true'' else js ''false'')"
| "stringify (JNum lexeme) = lexeme"
| "stringify (JStr s) = quote s"
| "stringify (JArr xs) = [91] @ join [44] (map stringify xs) @ [93]"
| "stringify (JObj kvs) =
     [123] @ join [44] (map (\<lambda>kv. quote (fst kv) @ [58] @ stringify (snd kv)) kvs) @ [125]"

text \<open>
  \<open>JSON.parse\<close> as a pushdown automaton that reads the text one code unit at a time.
  The stack holds the arrays and objects that are still open. Any text outside the JSON
  grammar is a SyntaxError.
\<close>

datatype jframe =
    FArr "json list"
  | FObj "(jstring \<times> json) list"
  | FObjKey "(jstring \<times> json) list" jstring

datatype jmode =
    MValue
  | MValueOrEnd
  | MKeyOrEnd
  | MKey
  | MColon
  | MAfter
  | MDone json
  | MString bool jstring
  | MEscape bool jstring
  | MUnicode bool jstring "nat list"
  | MNumber jstring
  | MLiteral jstring json

type_synonym jstate = "jmode \<times> jframe list"

definition json_whitespace :: "nat \<Rightarrow> bool" where
  "json_whitespace c \<longleftrightarrow> c = 9 \<or> c = 10 \<or> c = 13 \<or> c = 32"

definition is_digit :: "nat \<Rightarrow> bool" where
  "is_digit c \<longleftrightarrow> 48 \<le> c \<and> c \<le> 57"

definition hex_value :: "nat \<Rightarrow> nat option" where
  "hex_value c =
     (if 48 \<le> c \<and> c \<le> 57 then Some (c - 48)
      else if 97 \<le> c \<and> c \<le> 102 then Some (c - 87)
      else if 65 \<le> c \<and> c \<le> 70 then Some (c - 55)
      else None)"

definition escape_char :: "nat \<Rightarrow> nat option" where
  "escape_char c =
     (if c = 34 \<or> c = 92 \<or> c = 47 then Some c
      else if c = 98 then Some 8
      else if c = 102 then Some 12
      else if c = 110 then Some 10
      else if c = 114 then Some 13
      else if c = 116 then Some 9
      else None)"

text \<open>The number grammar: \<open>-? (0 | [1-9][0-9]*) (. [0-9]+)? ([eE] [+-]? [0-9]+)?\<close>.\<close>

definition valid_exponent :: "jstring \<Rightarrow> bool" where
  "valid_exponent r =
     (case r of
        [] \<Rightarrow> True
      | c # r' \<Rightarrow>
          (c = 101 \<or> c = 69) \<and>
          (let ds = (case r' of [] \<Rightarrow> [] | s # t \<Rightarrow> if s = 43 \<or> s = 45 then t else r')
           in ds \<noteq> [] \<and> list_all is_digit ds))"

definition valid_fraction :: "jstring \<Rightarrow> bool" where
  "valid_fraction r =
     (case r of
        [] \<Rightarrow> True
      | c # r' \<Rightarrow>
          if c = 46 then r' \<noteq> [] \<and> is_digit (hd r') \<and> valid_exponent (dropWhile is_digit r')
          else valid_exponent r)"

definition valid_number :: "jstring \<Rightarrow> bool" where
  "valid_number lexeme =
     (case (case lexeme of [] \<Rightarrow> [] | c # r \<Rightarrow> if c = 45 then r else lexeme) of
        [] \<Rightarrow> False
      | c # r \<Rightarrow>
          if c = 48 then valid_fraction r
          else if 49 \<le> c \<and> c \<le> 57 then valid_fraction (dropWhile is_digit r)
          else False)"

definition number_char :: "nat \<Rightarrow> bool" where
  "number_char c \<longleftrightarrow> is_digit c \<or> c = 43 \<or> c = 45 \<or> c = 46 \<or> c = 101 \<or> c = 69"

fun push_value :: "json \<Rightarrow> jframe list \<Rightarrow> js_error + jstate" where
  "push_value v [] = Inr (MDone v, [])"
| "push_value v (FArr xs # st) = Inr (MAfter, FArr (xs @ [v]) # st)"
| "push_value v (FObjKey kvs k # st) = Inr (MAfter, FObj (kvs @ [(k, v)]) # st)"
| "push_value v (FObj kvs # st) = Inl SyntaxError"

definition close_array :: "jframe list \<Rightarrow> js_error + jstate" where
  "close_array st = (case st of FArr xs # st' \<Rightarrow> push_value (JArr xs) st' | _ \<Rightarrow> Inl SyntaxError)"

definition close_object :: "jframe list \<Rightarrow> js_error + jstate" where
  "close_object st = (case st of FObj kvs # st' \<Rightarrow> push_value (JObj kvs) st' | _ \<Rightarrow> Inl SyntaxError)"

definition step_after :: "jstate \<Rightarrow> nat \<Rightarrow> js_error + jstate" where
  "step_after s c =
     (case s of (mode, st) \<Rightarrow>
        if json_whitespace c then Inr s
        else (case mode of
                MAfter \<Rightarrow>
                  if c = 44 then
                    (case st of
                       FArr xs # st' \<Rightarrow> Inr (MValue, st)
                     | FObj kvs # st' \<Rightarrow> Inr (MKey, st)
                     | _ \<Rightarrow> Inl SyntaxError)
                  else if c = 93 then close_array st
                  else if c = 125 then close_object st
                  else Inl SyntaxError
              | _ \<Rightarrow> Inl SyntaxError))"

definition step_value :: "jframe list \<Rightarrow> nat \<Rightarrow> js_error + jstate" where
  "step_value st c =
     (if c = 123 then Inr (MKeyOrEnd, FObj [] # st)
      else if c = 91 then Inr (MValueOrEnd, FArr [] # st)
      else if c = 34 then Inr (MString False [], st)
      else if c = 45 \<or> is_digit c then Inr (MNumber [c], st)
      else if c = 116 then Inr (MLiteral (js ''rue'') (JBool True), st)
      else if c = 102 then Inr (MLiteral (js ''alse'') (JBool False), st)
      else if c = 110 then Inr (MLiteral (js ''ull'') JNull, st)
      else Inl SyntaxError)"

definition step :: "jstate \<Rightarrow> nat \<Rightarrow> js_error + jstate" where
  "step s c =
     (case s of (mode, st) \<Rightarrow>
        (case mode of
           MValue \<Rightarrow> if json_whitespace c then Inr s else step_value st c
         | MValueOrEnd \<Rightarrow>
             if json_whitespace c then Inr s
             else if c = 93 then close_array st
             else step_value st c
         | MKeyOrEnd \<Rightarrow>
             if json_whitespace c then Inr s
             else if c = 125 then close_object st
             else if c = 34 then Inr (MString True [], st)
             else Inl SyntaxError
         | MKey \<Rightarrow>
             if json_whitespace c then Inr s
             else if c = 34 then Inr (MString True [], st)
             else Inl SyntaxError
         | MColon \<Rightarrow>
             if json_whitespace c then Inr s
             else if c = 58 then Inr (MValue, st)
             else Inl SyntaxError
         | MAfter \<Rightarrow> step_after s c
         | MDone v \<Rightarrow> step_after s c
         | MString key acc \<Rightarrow>
             if c = 34 then
               (if key then
                  (case st of
                     FObj kvs # st' \<Rightarrow> Inr (MColon, FObjKey kvs acc # st')
                   | _ \<Rightarrow> Inl SyntaxError)
                else push_value (JStr acc) st)
             else if c = 92 then Inr (MEscape key acc, st)
             else if c < 32 then Inl SyntaxError
             else Inr (MString key (acc @ [c]), st)
         | MEscape key acc \<Rightarrow>
             (case escape_char c of
                Some e \<Rightarrow> Inr (MString key (acc @ [e]), st)
              | None \<Rightarrow> if c = 117 then Inr (MUnicode key acc [], st) else Inl SyntaxError)
         | MUnicode key acc hs \<Rightarrow>
             (case hex_value c of
                None \<Rightarrow> Inl SyntaxError
              | Some h \<Rightarrow>
                  if length hs = 3
                    then Inr (MString key (acc @ [foldl (\<lambda>n d. n * 16 + d) 0 (hs @ [h])]), st)
                  else Inr (MUnicode key acc (hs @ [h]), st))
         | MNumber lexeme \<Rightarrow>
             if number_char c then Inr (MNumber (lexeme @ [c]), st)
             else if valid_number lexeme then
               (case push_value (JNum lexeme) st of
                  Inl e \<Rightarrow> Inl e
                | Inr s' \<Rightarrow> step_after s' c)
             else Inl SyntaxError
         | MLiteral remaining v \<Rightarrow>
             (case remaining of
                [] \<Rightarrow> Inl SyntaxError
              | r # rs \<Rightarrow>
                  if c \<noteq> r then Inl SyntaxError
                  else if rs = [] then push_value v st
                  else Inr (MLiteral rs v, st))))"

fun run :: "jstate \<Rightarrow> jstring \<Rightarrow> js_error + jstate" where
  "run s [] = Inr s"
| "run s (c # cs) = (case step s c of Inl e \<Rightarrow> Inl e | Inr s' \<Rightarrow> run s' cs)"

definition JSON_parse :: "jstring \<Rightarrow> js_error + json" where
  "JSON_parse text =
     (case run (MValue, []) text of
        Inl e \<Rightarrow> Inl e
      | Inr (mode, st) \<Rightarrow>
          (case mode of
             MDone v \<Rightarrow> Inr v
           | MNumber lexeme \<Rightarrow>
               if st = [] \<and> valid_number lexeme then Inr (JNum lexeme) else Inl SyntaxError
           | _ \<Rightarrow> Inl SyntaxError))"

section \<open>Values at run time: member access and coercions\<close>

text \<open>Reading a member of a parsed object: the last member with that key.\<close>

definition obj_get :: "(jstring \<times> json) list \<Rightarrow> jstring \<Rightarrow> json option" where
  "obj_get kvs k = map_of (rev kvs) k"

text \<open>
  \<open>config.c\<close> and \<open>config.e\<close>: reading a member of \<open>null\<close> throws a TypeError; a
  value that is not an object has no member of these names, so the result is
  \<open>undefined\<close> (\<open>None\<close>).
\<close>

definition get_member :: "json \<Rightarrow> jstring \<Rightarrow> js_error + json option" where
  "get_member v k =
     (case v of
        JNull \<Rightarrow> Inl TypeError
      | JObj kvs \<Rightarrow> Inr (obj_get kvs k)
      | _ \<Rightarrow> Inr None)"

text \<open>
  The conversion of a parsed value to a string, as a property key and in a comparison.
  An array is the join of its elements, \<open>null\<close> rendered as the empty string. An
  object is rendered by the inherited \<open>toString\<close> as \<open>[object Object]\<close>; an own member
  named \<open>toString\<close> hides the inherited one, and since no parsed value can be called
  the conversion then throws a TypeError.
\<close>

fun js_to_string :: "json \<Rightarrow> js_error + jstring"
  and js_elements :: "json list \<Rightarrow> js_error + jstring list" where
  "js_to_string JNull = Inr (js ''null'')"
| "js_to_string (JBool b) = Inr (if b then js ''true'' else js ''false'')"
| "js_to_string (JNum lexeme) = Inr lexeme"
| "js_to_string (JStr s) = Inr s"
| "js_to_string (JArr xs) =
     (case js_elements xs of
        Inl e \<Rightarrow> Inl e
      | Inr pieces \<Rightarrow> Inr (join [44] pieces))"
| "js_to_string (JObj kvs) =
     (if obj_get kvs (js ''toString'') = None then Inr (js ''[object Object]'')
      else Inl TypeError)"
| "js_elements [] = Inr []"
| "js_elements (x # xs) =
     (case (if x = JNull then Inr [] else js_to_string x) of
        Inl e \<Rightarrow> Inl e
      | Inr piece \<Rightarrow>
          (case js_elements xs of
             Inl e \<Rightarrow> Inl e
           | Inr pieces \<Rightarrow> Inr (piece # pieces)))"

text \<open>
  \<open>Number(s) > 0\<close> for a string \<open>s\<close>: the string is trimmed and read as a numeric
  literal (decimal with optional sign, fraction and exponent; \<open>Infinity\<close>; or a hex,
  octal or binary integer). A decimal \<open>m * 10^e\<close> is rounded to the nearest double, which
  is positive exactly when the value exceeds \<open>2^-1075\<close>.
\<close>

definition str_whitespace :: "nat \<Rightarrow> bool" where
  "str_whitespace c \<longleftrightarrow>
     c \<in> {9, 10, 11, 12, 13, 32, 160, 5760, 8232, 8233, 8239, 8287, 12288, 65279}
     \<or> (8192 \<le> c \<and> c \<le> 8202)"

definition trim :: "jstring \<Rightarrow> jstring" where
  "trim s = rev (dropWhile str_whitespace (rev (dropWhile str_whitespace s)))"

definition digits_value :: "jstring \<Rightarrow> nat" where
  "digits_value ds = foldl (\<lambda>n d. n * 10 + (d - 48)) 0 ds"

definition exponent_value :: "jstring \<Rightarrow> int option" where
  "exponent_value r =
     (case r of
        [] \<Rightarrow> Some 0
      | e # r' \<Rightarrow>
          (let neg = (r' \<noteq> [] \<and> hd r' = 45);
               ds = (if r' \<noteq> [] \<and> (hd r' = 43 \<or> hd r' = 45) then tl r' else r')
           in if ds \<noteq> [] \<and> list_all is_digit ds
                then Some (if neg then - int (digits_value ds) else int (digits_value ds))
              else None))"

definition decimal_value :: "jstring \<Rightarrow> (nat \<times> int) option" where
  "decimal_value body =
     (let mant = takeWhile (\<lambda>c. c \<noteq> 101 \<and> c \<noteq> 69) body;
          ip = takeWhile is_digit mant;
          after = dropWhile is_digit mant;
          fr = (case after of [] \<Rightarrow> [] | d # f \<Rightarrow> f)
      in if (after = [] \<and> ip \<noteq> [])
            \<or> (after \<noteq> [] \<and> hd after = 46 \<and> list_all is_digit fr \<and> (ip \<noteq> [] \<or> fr \<noteq> []))
         then (case exponent_value (dropWhile (\<lambda>c. c \<noteq> 101 \<and> c \<noteq> 69) body) of
                 None \<Rightarrow> None
               | Some e \<Rightarrow> Some (digits_value (ip @ fr), e - int (length fr)))
         else None)"

definition rounds_positive :: "nat \<Rightarrow> int \<Rightarrow> bool" where
  "rounds_positive m e \<longleftrightarrow>
     (1 / 2 ^ 1075 :: rat) < of_nat m * (if 0 \<le> e then 10 ^ nat e else 1 / 10 ^ nat (- e))"

definition radix_positive :: "(nat \<Rightarrow> bool) \<Rightarrow> jstring \<Rightarrow> bool" where
  "radix_positive is_dig ds \<longleftrightarrow> ds \<noteq> [] \<and> list_all is_dig ds \<and> (\<exists>d \<in> set ds. d \<noteq> 48)"

definition string_positive :: "jstring \<Rightarrow> bool" where
  "string_positive s =
     (let t = trim s
      in if t = js ''Infinity'' \<or> t = js ''+Infinity'' then True
         else if 2 \<le> length t \<and> hd t = 48 \<and> (t ! 1 = 120 \<or> t ! 1 = 88)
           then radix_positive (\<lambda>c. hex_value c \<noteq> None) (drop 2 t)
         else if 2 \<le> length t \<and> hd t = 48 \<and> (t ! 1 = 111 \<or> t ! 1 = 79)
           then radix_positive (\<lambda>c. 48 \<le> c \<and> c \<le> 55) (drop 2 t)
         else if 2 \<le> length t \<and> hd t = 48 \<and> (t ! 1 = 98 \<or> t ! 1 = 66)
           then radix_positive (\<lambda>c. c = 48 \<or> c = 49) (drop 2 t)
         else if t \<noteq> [] \<and> hd t = 45 then False
         else (case decimal_value (if t \<noteq> [] \<and> hd t = 43 then tl t else t) of
                 None \<Rightarrow> False
               | Some (m, e) \<Rightarrow> rounds_positive m e))"

text \<open>\<open>v > 0\<close> for a parsed value \<open>v\<close>: \<open>true\<close> counts as 1, \<open>false\<close> and \<open>null\<close> as
  0, every other value is converted to a string and read as a number.\<close>

definition js_positive :: "json \<Rightarrow> js_error + bool" where
  "js_positive v =
     (case v of
        JBool b \<Rightarrow> Inr b
      | JNull \<Rightarrow> Inr False
      | _ \<Rightarrow>
          (case js_to_string v of
             Inl e \<Rightarrow> Inl e
           | Inr s \<Rightarrow> Inr (string_positive s)))"

text \<open>\<open>config.e.length > 0\<close>, where \<open>config.e\<close> may be missing (\<open>None\<close>).\<close>

definition length_gt_zero :: "json option \<Rightarrow> js_error + bool" where
  "length_gt_zero e =
     (case e of
        None \<Rightarrow> Inl TypeError
      | Some JNull \<Rightarrow> Inl TypeError
      | Some (JArr xs) \<Rightarrow> Inr (xs \<noteq> [])
      | Some (JStr s) \<Rightarrow> Inr (s \<noteq> [])
      | Some (JObj kvs) \<Rightarrow>
          (case obj_get kvs (js ''length'') of None \<Rightarrow> Inr False | Some v \<Rightarrow> js_positive v)
      | Some _ \<Rightarrow> Inr False)"

section \<open>The processor wrapper and its fallbacks (src/unnamed/part_002)\<close>

text \<open>
  The module variable \<open>processor\<close> holds the external package when it could be loaded
  (\<open>Some\<close>) and \<open>null\<close> otherwise (\<open>None\<close>); then \<open>__processor__\<close> uses the fallback
  codecs \<open>base64\<close>, \<open>hex\<close>, \<open>rawHex\<close> and \<open>base58\<close>, and leaves the input unchanged
  for every other encoding. The global functions \<open>btoa\<close> and \<open>atob\<close> are taken to
  exist. The codec is looked up under the key that the encoding converts to, and the
  conversion can throw. A key that names a member of \<open>Object.prototype\<close>, such as
  \<open>valueOf\<close>, is outside the model, which treats every key other than the four codec
  names as an unknown encoding.
\<close>

text \<open>\<open>Array.from(str)\<close> splits a string into code points; \<open>c.charCodeAt(0)\<close> is the
  first code unit of each.\<close>

fun code_point_heads :: "jstring \<Rightarrow> nat list" where
  "code_point_heads [] = []"
| "code_point_heads [c] = [c]"
| "code_point_heads (c # d # rest) =
     (if is_high_surrogate c \<and> is_low_surrogate d then c # code_point_heads rest
      else c # code_point_heads (d # rest))"

fun toString16 :: "nat \<Rightarrow> jstring" where
  "toString16 n = (if n < 16 then [hex_digit n] else toString16 (n div 16) @ [hex_digit (n mod 16)])"

declare toString16.simps [simp del]

definition hex_encode :: "jsval \<Rightarrow> js_error + jsval" where
  "hex_encode v =
     (case v of
        Undefined \<Rightarrow> Inl TypeError
      | Str s \<Rightarrow> Inr (Str (concat (map (\<lambda>c. padStart (toString16 c) 2 48) (code_point_heads s)))))"

definition BASE58_ALPHABET :: jstring where
  "BASE58_ALPHABET = js ''123456789ABCDEFGHJKLMNPQRSTUVWXYZabcdefghijkmnopqrstuvwxyz''"

fun base58_digits :: "nat \<Rightarrow> jstring" where
  "base58_digits n =
     (if n = 0 then [] else base58_digits (n div 58) @ [BASE58_ALPHABET ! (n mod 58)])"

declare base58_digits.simps [simp del]

definition base58_encode :: "jsval \<Rightarrow> js_error + jsval" where
  "base58_encode v =
     (case v of
        Undefined \<Rightarrow> Inl TypeError
      | Str s \<Rightarrow>
          (let num = foldl (\<lambda>n byte. n * 256 + byte) 0 (code_point_heads s);
               encoded = base58_digits num
           in Inr (Str (if encoded = [] then [BASE58_ALPHABET ! 0] else encoded))))"

definition base64_encode :: "jsval \<Rightarrow> js_error + jsval" where
  "base64_encode v =
     (case btoa (case v of Undefined \<Rightarrow> js ''undefined'' | Str s \<Rightarrow> s) of
        Inl e \<Rightarrow> Inl e
      | Inr b \<Rightarrow> Inr (Str b))"

definition base64_decode :: "jsval \<Rightarrow> js_error + jsval" where
  "base64_decode v =
     (case atob (case v of Undefined \<Rightarrow> js ''undefined'' | Str s \<Rightarrow> s) of
        Inl e \<Rightarrow> Inl e
      | Inr b \<Rightarrow> Inr (Str b))"

text \<open>
  The hex decoder: \<open>str.match(/.{1,2}/g)\<close> cuts the string into pieces of two
  characters (one, before a line terminator or at the end; line terminators are skipped),
  \<open>parseInt(piece, 16)\<close> reads a piece, and \<open>String.fromCharCode\<close> takes the result
  modulo \<open>2^16\<close>, NaN as 0.
\<close>

definition line_terminator :: "nat \<Rightarrow> bool" where
  "line_terminator c \<longleftrightarrow> c = 10 \<or> c = 13 \<or> c = 8232 \<or> c = 8233"

fun hex_pieces :: "jstring \<Rightarrow> jstring list" where
  "hex_pieces [] = []"
| "hex_pieces [c] = (if line_terminator c then [] else [[c]])"
| "hex_pieces (c # d # rest) =
     (if line_terminator c then hex_pieces (d # rest)
      else if line_terminator d then [c] # hex_pieces rest
      else [c, d] # hex_pieces rest)"

definition parseInt16 :: "jstring \<Rightarrow> int option" where
  "parseInt16 s =
     (let s1 = dropWhile str_whitespace s;
          neg = (s1 \<noteq> [] \<and> hd s1 = 45);
          s2 = (if s1 \<noteq> [] \<and> (hd s1 = 43 \<or> hd s1 = 45) then tl s1 else s1);
          s3 = (if 2 \<le> length s2 \<and> hd s2 = 48 \<and> (s2 ! 1 = 120 \<or> s2 ! 1 = 88) then drop 2 s2 else s2);
          ds = takeWhile (\<lambda>c. hex_value c \<noteq> None) s3;
          n = int (foldl (\<lambda>n c. n * 16 + the (hex_value c)) 0 ds)
      in if ds = [] then None else Some (if neg then - n else n))"

definition char_of_number :: "int option \<Rightarrow> nat" where
  "char_of_number n = (case n of None \<Rightarrow> 0 | Some k \<Rightarrow> nat (k mod 65536))"

definition hex_decode :: "jsval \<Rightarrow> js_error + jsval" where
  "hex_decode v =
     (case v of
        Undefined \<Rightarrow> Inl TypeError
      | Str s \<Rightarrow> Inr (Str (map (\<lambda>byte. char_of_number (parseInt16 byte)) (hex_pieces s))))"

text \<open>The base58 decoder iterates over code points; a surrogate pair is not in the
  alphabet.\<close>

fun index_of :: "nat \<Rightarrow> jstring \<Rightarrow> nat option" where
  "index_of c [] = None"
| "index_of c (a # as) = (if c = a then Some 0 else map_option Suc (index_of c as))"

fun base58_number :: "jstring \<Rightarrow> nat \<Rightarrow> js_error + nat" where
  "base58_number [] num = Inr num"
| "base58_number [c] num =
     (case index_of c BASE58_ALPHABET of
        None \<Rightarrow> Inl (ThrownError (js ''Invalid base58 character''))
      | Some i \<Rightarrow> Inr (num * 58 + i))"
| "base58_number (c # d # rest) num =
     (if is_high_surrogate c \<and> is_low_surrogate d
        then Inl (ThrownError (js ''Invalid base58 character''))
      else (case index_of c BASE58_ALPHABET of
              None \<Rightarrow> Inl (ThrownError (js ''Invalid base58 character''))
            | Some i \<Rightarrow> base58_number (d # rest) (num * 58 + i)))"

fun bytes_of :: "nat \<Rightarrow> nat list" where
  "bytes_of num = (if num = 0 then [] else bytes_of (num div 256) @ [num mod 256])"

declare bytes_of.simps [simp del]

definition base58_decode :: "jsval \<Rightarrow> js_error + jsval" where
  "base58_decode v =
     (case v of
        Undefined \<Rightarrow> Inl TypeError
      | Str s \<Rightarrow>
          (case base58_number s 0 of
             Inl e \<Rightarrow> Inl e
           | Inr num \<Rightarrow> Inr (Str (bytes_of num))))"

definition fallback_encoder :: "json \<Rightarrow> js_error + (jsval \<Rightarrow> js_error + jsval) option" where
  "fallback_encoder encoding =
     (case js_to_string encoding of
        Inl e \<Rightarrow> Inl e
      | Inr key \<Rightarrow>
          Inr (if key = js ''base64'' then Some base64_encode
               else if key = js ''hex'' then Some hex_encode
               else if key = js ''rawHex'' then Some Inr
               else if key = js ''base58'' then Some base58_encode
               else None))"

definition fallback_decoder :: "json \<Rightarrow> js_error + (jsval \<Rightarrow> js_error + jsval) option" where
  "fallback_decoder encoding =
     (case js_to_string encoding of
        Inl e \<Rightarrow> Inl e
      | Inr key \<Rightarrow>
          Inr (if key = js ''base64'' then Some base64_decode
               else if key = js ''hex'' then Some hex_decode
               else if key = js ''rawHex'' then Some Inr
               else if key = js ''base58'' then Some base58_decode
               else None))"

text \<open>\<open>codec ? codec(input) : input\<close> after the lookup of the codec.\<close>

definition apply_codec ::
  "js_error + (jsval \<Rightarrow> js_error + jsval) option \<Rightarrow> jsval \<Rightarrow> js_error + jsval" where
  "apply_codec codec input =
     (case codec of
        Inl e \<Rightarrow> Inl e
      | Inr None \<Rightarrow> Inr input
      | Inr (Some f) \<Rightarrow> f input)"

fun fallback_encodeMultiple :: "jsval \<Rightarrow> json list \<Rightarrow> js_error + jsval list" where
  "fallback_encodeMultiple result [] = Inr []"
| "fallback_encodeMultiple result (encoding # encodings) =
     (case apply_codec (fallback_encoder encoding) result of
        Inl e \<Rightarrow> Inl e
      | Inr r \<Rightarrow>
          (case fallback_encodeMultiple r encodings of
             Inl e \<Rightarrow> Inl e
           | Inr rs \<Rightarrow> Inr (r # rs)))"

text \<open>\<open>/^[0-9a-f]+$/i\<close> and \<open>/^[A-Za-z0-9+/]+=*$/\<close>.\<close>

definition hexRegex :: "jstring \<Rightarrow> bool" where
  "hexRegex s \<longleftrightarrow> s \<noteq> [] \<and> list_all (\<lambda>c. hex_value c \<noteq> None) s"

definition base64Regex :: "jstring \<Rightarrow> bool" where
  "base64Regex s \<longleftrightarrow>
     takeWhile (\<lambda>c. b64_value c \<noteq> None) s \<noteq> []
     \<and> list_all (\<lambda>c. c = 61) (dropWhile (\<lambda>c. b64_value c \<noteq> None) s)"

definition fallback_autoDetectAndDecode :: "jsval \<Rightarrow> js_error + jsval" where
  "fallback_autoDetectAndDecode input =
     (case input of
        Undefined \<Rightarrow> Inl TypeError
      | Str s \<Rightarrow>
          if hexRegex s then hex_decode input
          else if base64Regex s \<and> length s mod 4 = 0 then base64_decode input
          else Inr input)"

definition wrapper :: "json processor option \<Rightarrow> json processor" where
  "wrapper processor =
     (case processor of
        Some p \<Rightarrow> p
      | None \<Rightarrow>
          \<lparr>encode_fn = (\<lambda>input encoding. apply_codec (fallback_encoder encoding) input),
           decode_fn = (\<lambda>input encoding. apply_codec (fallback_decoder encoding) input),
           encodeMultiple_fn = fallback_encodeMultiple,
           autoDetectAndDecode_fn = fallback_autoDetectAndDecode\<rparr>)"

section \<open>The encoding pipeline (\<open>EncodingPipeline\<close>, src/unnamed/part_004)\<close>

text \<open>
  The state of a pipeline. Encoding names and the compression method are strings; the
  metadata object is the list of its members in enumeration order.
\<close>

record EncodingPipeline =
  encoders :: "jstring list"
  compressionMethod :: jstring
  isReversible :: bool
  metadata :: "(jstring \<times> json) list"

definition to_text :: "jsval \<Rightarrow> jstring" where
  "to_text v = (case v of Undefined \<Rightarrow> js ''undefined'' | Str s \<Rightarrow> s)"

definition config_of :: "EncodingPipeline \<Rightarrow> json" where
  "config_of p =
     JObj [(js ''e'', JArr (map JStr (encoders p))),
           (js ''c'', JStr (compressionMethod p)),
           (js ''m'', JObj (metadata p))]"

text \<open>
  \<open>process\<close> calls the external package (imported directly by this module), here
  \<open>ext\<close>. Reading \<open>.encoded\<close> of the last element of an empty \<open>results\<close> array throws
  a TypeError.
\<close>

definition process :: "json processor \<Rightarrow> EncodingPipeline \<Rightarrow> jstring \<Rightarrow> js_error + jsval" where
  "process ext p input =
     (case (if 0 < length (encoders p) then
              (case encodeMultiple_fn ext (Str input) (map JStr (encoders p)) of
                 Inl e \<Rightarrow> Inl e
               | Inr results \<Rightarrow> if results = [] then Inl TypeError else Inr (last results))
            else Inr (Str input)) of
        Inl e \<Rightarrow> Inl e
      | Inr result1 \<Rightarrow>
          (case (if compressionMethod p \<noteq> js ''none''
                   then Encoder_compress result1 (Some (JStr (compressionMethod p)))
                 else Inr result1) of
             Inl e \<Rightarrow> Inl e
           | Inr result2 \<Rightarrow>
               if isReversible p then
                 (case encode_fn ext (Str (stringify (config_of p))) (JStr (js ''base64'')) of
                    Inl e \<Rightarrow> Inl e
                  | Inr configStr \<Rightarrow> Inr (Str (to_text configStr @ [58] @ to_text result2)))
               else Inr result2))"

text \<open>\<open>input.split(":", 2)\<close>: the string is cut at every separator and the first two
  pieces are kept.\<close>

fun split_on :: "nat \<Rightarrow> jstring \<Rightarrow> jstring list" where
  "split_on sep [] = [[]]"
| "split_on sep (c # cs) =
     (if c = sep then [] # split_on sep cs
      else (case split_on sep cs of [] \<Rightarrow> [[c]] | piece # pieces \<Rightarrow> (c # piece) # pieces))"

definition split_limit :: "nat \<Rightarrow> nat \<Rightarrow> jstring \<Rightarrow> jstring list" where
  "split_limit sep limit s = take limit (split_on sep s)"

definition element :: "jstring list \<Rightarrow> nat \<Rightarrow> jsval" where
  "element xs i = (if i < length xs then Str (xs ! i) else Undefined)"

text \<open>
  The body of the \<open>try\<close> block of \<open>reverse\<close>. The array \<open>config.e\<close> is a fresh object,
  so \<open>Encoder.decode\<close> runs on a private store and the reversed array is dropped.
\<close>

definition reverse_body :: "json processor \<Rightarrow> jstring \<Rightarrow> js_error + jsval" where
  "reverse_body P input =
     (let parts = split_limit 58 2 input;
          configStr = element parts 0;
          content = element parts 1
      in case atob (to_text configStr) of
           Inl e \<Rightarrow> Inl e
         | Inr decoded \<Rightarrow>
             (case JSON_parse decoded of
                Inl e \<Rightarrow> Inl e
              | Inr config \<Rightarrow>
                  (case get_member config (js ''c'') of
                     Inl e \<Rightarrow> Inl e
                   | Inr c \<Rightarrow>
                       (let result = (if c \<noteq> Some (JStr (js ''none''))
                                      then Encoder_decompress content c else content)
                        in case get_member config (js ''e'') of
                             Inl e \<Rightarrow> Inl e
                           | Inr e \<Rightarrow>
                               (case length_gt_zero e of
                                  Inl err \<Rightarrow> Inl err
                                | Inr False \<Rightarrow> Inr result
                                | Inr True \<Rightarrow>
                                    (case e of
                                       Some (JArr xs) \<Rightarrow>
                                         snd (Encoder_decode P [0 \<mapsto> xs] result (EncodingArray 0) False)
                                     | Some v \<Rightarrow>
                                         snd (Encoder_decode P Map.empty result (OneEncoding v) False)
                                     | None \<Rightarrow> Inl TypeError))))))"

text \<open>\<open>reverse\<close>: \<open>None\<close> is the result \<open>null\<close>. The argument \<open>processor\<close> is the module
  variable of the wrapper, which \<open>Encoder.decode\<close> uses.\<close>

definition reverse :: "json processor option \<Rightarrow> jstring \<Rightarrow> jsval option" where
  "reverse processor input =
     (if 58 \<notin> set input then None
      else (case reverse_body (wrapper processor) input of
              Inl e \<Rightarrow> None
            | Inr result \<Rightarrow> Some result))"

text \<open>A pipeline for the examples.\<close>

definition pipeline :: "jstring list \<Rightarrow> jstring \<Rightarrow> EncodingPipeline" where
  "pipeline encs method =
     \<lparr>encoders = encs, compressionMethod = method, isReversible = True, metadata = []\<rparr>"

section \<open>Verified properties: the collision-safe loop\<close>

lemma safe_loop_reject:
  "int attempts < maxAttempts options \<Longrightarrow> generate w = (ident, w1) \<Longrightarrow>
   checkFunction options ident w1 = (False, w2) \<Longrightarrow>
   safe_loop generate options attempts w tr =
     safe_loop generate options (Suc attempts) w2
       (tr @ [Generated ident, Checked ident False,
              Slept (backoff_delay (backoffType options) (Suc attempts))])"
  by (simp add: safe_loop.simps[of generate options attempts])

lemma safe_loop_accept:
  "int attempts < maxAttempts options \<Longrightarrow> generate w = (ident, w1) \<Longrightarrow>
   checkFunction options ident w1 = (True, w2) \<Longrightarrow>
   safe_loop generate options attempts w tr = (Inr ident, w2, tr @ [Generated ident, Checked ident True])"
  by (simp add: safe_loop.simps[of generate options attempts])

lemma safe_loop_exhausted:
  "\<not> int attempts < maxAttempts options \<Longrightarrow>
   safe_loop generate options attempts w tr = (Inl (CollisionExhausted (maxAttempts options)), w, tr)"
  by (simp add: safe_loop.simps[of generate options attempts])

text \<open>
  Claim C3. With a predicate that always answers false and \<open>maxAttempts = 3\<close>, the
  generator and the predicate are each called exactly three times and the run then fails
  with the exhaustion error that names the maximum, 3. With a predicate that rejects the
  first candidate and accepts the second (and \<open>maxAttempts\<close> at least 2), there are
  exactly two attempts and the second candidate is returned without a failure.
\<close>

theorem safe_attempt_counts:
  "((\<forall>ident w. \<not> fst (chk ident w)) \<longrightarrow>
      (\<exists>w' tr. safe generate (strategy 3 b chk) w0 = (Inl (CollisionExhausted 3), w', tr)
         \<and> length (filter is_Generated tr) = 3 \<and> length (filter is_Checked tr) = 3))
   \<and> (generate w0 = (c1, w1) \<and> chk c1 w1 = (False, w2) \<and>
      generate w2 = (c2, w3) \<and> chk c2 w3 = (True, w4) \<and> 2 \<le> n \<longrightarrow>
      safe generate (strategy n b chk) w0 =
        (Inr c2, w4, [Generated c1, Checked c1 False, Slept (backoff_delay b 1),
                      Generated c2, Checked c2 True]))"
proof (intro conjI impI)
  assume rej: "\<forall>ident w. \<not> fst (chk ident w)"
  let ?o = "strategy 3 b chk"
  have chk: "\<And>ident w. checkFunction ?o ident w = (False, snd (chk ident w))"
    using rej by (simp add: strategy_def prod_eq_iff)
  have m: "maxAttempts ?o = 3" by (simp add: strategy_def)
  obtain a1 v1 where g1: "generate w0 = (a1, v1)" by (cases "generate w0")
  obtain a2 v2 where g2: "generate (snd (chk a1 v1)) = (a2, v2)" by (cases "generate (snd (chk a1 v1))")
  obtain a3 v3 where g3: "generate (snd (chk a2 v2)) = (a3, v3)" by (cases "generate (snd (chk a2 v2))")
  have "safe generate ?o w0 =
      (Inl (CollisionExhausted 3), snd (chk a3 v3),
       [Generated a1, Checked a1 False, Slept (backoff_delay b 1),
        Generated a2, Checked a2 False, Slept (backoff_delay b 2),
        Generated a3, Checked a3 False, Slept (backoff_delay b 3)])"
    unfolding safe_def
    apply (subst safe_loop_reject[where generate=generate and w=w0, OF _ g1 chk], simp add: m)
    apply (subst safe_loop_reject[where generate=generate and w="snd (chk a1 v1)", OF _ g2 chk], simp add: m)
    apply (subst safe_loop_reject[where generate=generate and w="snd (chk a2 v2)", OF _ g3 chk], simp add: m)
    apply (subst safe_loop_exhausted, simp add: m)
    apply (simp add: m strategy_def numeral_2_eq_2 numeral_3_eq_3)
    done
  then show "\<exists>w' tr. safe generate ?o w0 = (Inl (CollisionExhausted 3), w', tr)
         \<and> length (filter is_Generated tr) = 3 \<and> length (filter is_Checked tr) = 3"
    by simp
next
  assume h: "generate w0 = (c1, w1) \<and> chk c1 w1 = (False, w2) \<and>
      generate w2 = (c2, w3) \<and> chk c2 w3 = (True, w4) \<and> 2 \<le> n"
  let ?o = "strategy n b chk"
  have c1: "checkFunction ?o c1 w1 = (False, w2)" and c2: "checkFunction ?o c2 w3 = (True, w4)"
    using h by (simp_all add: strategy_def)
  have m: "maxAttempts ?o = n" and bt: "backoffType ?o = b" by (simp_all add: strategy_def)
  have g1: "generate w0 = (c1, w1)" and g2: "generate w2 = (c2, w3)" using h by simp_all
  show "safe generate ?o w0 =
        (Inr c2, w4, [Generated c1, Checked c1 False, Slept (backoff_delay b 1),
                      Generated c2, Checked c2 True])"
    unfolding safe_def
    apply (subst safe_loop_reject[where generate=generate and w=w0, OF _ g1 c1], use h in \<open>simp add: m\<close>)
    apply (subst safe_loop_accept[where generate=generate and w=w2, OF _ g2 c2], use h in \<open>simp add: m\<close>)
    apply (simp add: bt)
    done
qed

theorem safe_attempt_counts_witness:
  "(\<forall>ident w. \<not> fst (always_reject ident w))
   \<and> (\<exists>w' tr. safe next_candidate (strategy 3 Linear always_reject) ([js ''a'', js ''b'', js ''c'', js ''d''], 0)
         = (Inl (CollisionExhausted 3), w', tr)
         \<and> length (filter is_Generated tr) = 3 \<and> length (filter is_Checked tr) = 3)
   \<and> (next_candidate ([js ''a'', js ''b'', js ''c''], 0) = (js ''a'', ([js ''b'', js ''c''], 0))
      \<and> accept_second (js ''a'') ([js ''b'', js ''c''], 0) = (False, ([js ''b'', js ''c''], 1))
      \<and> next_candidate ([js ''b'', js ''c''], 1) = (js ''b'', ([js ''c''], 1))
      \<and> accept_second (js ''b'') ([js ''c''], 1) = (True, ([js ''c''], 2)) \<and> (2::int) \<le> 3)
   \<and> safe next_candidate (strategy 3 Linear accept_second) ([js ''a'', js ''b'', js ''c''], 0) =
        (Inr (js ''b''), ([js ''c''], 2),
         [Generated (js ''a''), Checked (js ''a'') False, Slept 100,
          Generated (js ''b''), Checked (js ''b'') True])"
proof -
  have r: "\<forall>ident w. \<not> fst (always_reject ident w)" by (simp add: always_reject_def)
  have h: "next_candidate ([js ''a'', js ''b'', js ''c''], 0) = (js ''a'', ([js ''b'', js ''c''], 0))
      \<and> accept_second (js ''a'') ([js ''b'', js ''c''], 0) = (False, ([js ''b'', js ''c''], 1))
      \<and> next_candidate ([js ''b'', js ''c''], 1) = (js ''b'', ([js ''c''], 1))
      \<and> accept_second (js ''b'') ([js ''c''], 1) = (True, ([js ''c''], 2)) \<and> (2::int) \<le> 3"
    by (simp add: accept_second_def)
  from safe_attempt_counts[of always_reject next_candidate Linear
      "([js ''a'', js ''b'', js ''c'', js ''d''], 0)"] r
  have a: "\<exists>w' tr. safe next_candidate (strategy 3 Linear always_reject) ([js ''a'', js ''b'', js ''c'', js ''d''], 0)
         = (Inl (CollisionExhausted 3), w', tr)
         \<and> length (filter is_Generated tr) = 3 \<and> length (filter is_Checked tr) = 3"
    by blast
  from safe_attempt_counts[of accept_second next_candidate Linear
      "([js ''a'', js ''b'', js ''c''], 0)" "js ''a''" "([js ''b'', js ''c''], 0)" "([js ''b'', js ''c''], 1)"
      "js ''b''" "([js ''c''], 1)" "([js ''c''], 2)" 3] h
  have b: "safe next_candidate (strategy 3 Linear accept_second) ([js ''a'', js ''b'', js ''c''], 0) =
        (Inr (js ''b''), ([js ''c''], 2),
         [Generated (js ''a''), Checked (js ''a'') False, Slept 100,
          Generated (js ''b''), Checked (js ''b'') True])"
    by (simp add: backoff_delay_def)
  from r a h b show ?thesis by blast
qed

lemma safe_loop_shape:
  "safe_loop generate options attempts w tr = (res, w', tr') \<Longrightarrow>
   \<exists>rej. (case res of
      Inr ident \<Rightarrow> tr' = tr @ rejected_rounds (backoffType options) attempts rej @ [Generated ident, Checked ident True]
                  \<and> int (attempts + length rej) < maxAttempts options
    | Inl e \<Rightarrow> e = CollisionExhausted (maxAttempts options)
               \<and> tr' = tr @ rejected_rounds (backoffType options) attempts rej
               \<and> (int attempts \<le> maxAttempts options \<longrightarrow> int (attempts + length rej) = maxAttempts options))"
proof (induction generate options attempts w tr arbitrary: res w' tr' rule: safe_loop.induct)
  case (1 generate options attempts w tr)
  show ?case
  proof (cases "int attempts < maxAttempts options")
    case False
    with "1.prems" show ?thesis
      by (intro exI[of _ "[]"]) (auto simp: safe_loop_exhausted)
  next
    case True
    obtain ident w1 where g: "generate w = (ident, w1)" by (cases "generate w")
    obtain ok w2 where c: "checkFunction options ident w1 = (ok, w2)" by (cases "checkFunction options ident w1")
    show ?thesis
    proof (cases ok)
      case True
      with \<open>int attempts < maxAttempts options\<close> g c "1.prems" show ?thesis
        by (intro exI[of _ "[]"]) (auto simp: safe_loop.simps[of generate options attempts])
    next
      case False
      let ?tr = "tr @ [Generated ident, Checked ident False, Slept (backoff_delay (backoffType options) (Suc attempts))]"
      from False have okF: "ok = False" by simp
      from False \<open>int attempts < maxAttempts options\<close> g c "1.prems"
      have run: "safe_loop generate options (Suc attempts) w2 ?tr = (res, w', tr')"
        by (simp add: safe_loop.simps[of generate options attempts])
      from "1.IH"[OF \<open>int attempts < maxAttempts options\<close> g[symmetric] c[symmetric] okF run]
      obtain rej where r: "(case res of
          Inr ident \<Rightarrow> tr' = ?tr @ rejected_rounds (backoffType options) (Suc attempts) rej @ [Generated ident, Checked ident True]
                  \<and> int (Suc attempts + length rej) < maxAttempts options
        | Inl e \<Rightarrow> e = CollisionExhausted (maxAttempts options)
               \<and> tr' = ?tr @ rejected_rounds (backoffType options) (Suc attempts) rej
               \<and> (int (Suc attempts) \<le> maxAttempts options \<longrightarrow> int (Suc attempts + length rej) = maxAttempts options))"
        by blast
      show ?thesis
        using r \<open>int attempts < maxAttempts options\<close>
        by (intro exI[of _ "ident # rej"]) (auto split: sum.splits)
    qed
  qed
qed

lemma rejected_rounds_last:
  "rej \<noteq> [] \<Longrightarrow> last (rejected_rounds b attempts rej) = Slept (backoff_delay b (attempts + length rej))"
proof (induction rej arbitrary: attempts)
  case Nil
  then show ?case by simp
next
  case (Cons i rej)
  show ?case
  proof (cases rej)
    case Nil
    then show ?thesis by simp
  next
    case (Cons j rej')
    then have "rejected_rounds b (Suc attempts) rej \<noteq> []" by simp
    with Cons.IH[of "Suc attempts"] Cons show ?thesis by simp
  qed
qed

lemma rejected_rounds_hd:
  "rejected_rounds b attempts rej @ [Generated ident, ev] \<noteq> [] \<and>
   is_Generated (hd (rejected_rounds b attempts rej @ [Generated ident, ev]))"
  by (cases rej) simp_all

lemma rejected_rounds_hd':
  "rej \<noteq> [] \<Longrightarrow> is_Generated (hd (rejected_rounds b attempts rej))"
  by (cases rej) simp_all

lemma rejected_rounds_Nil: "rejected_rounds b attempts rej = [] \<longleftrightarrow> rej = []"
  by (cases rej) simp_all

text \<open>
  Claim C4 says that no delay follows the final failed attempt. That fails on the code: the loop
  body increments the counter and awaits the delay before the loop condition is tested
  again. With \<open>maxAttempts = 1\<close> the only attempt is rejected, the loop sleeps for
  \<open>2 ^ 1\<close> time units and only then raises the exhaustion error.
\<close>

theorem backoff_after_final_failure:
  "safe next_candidate (strategy 1 Exponential always_reject) ([js ''a''], 0) =
     (Inl (CollisionExhausted 1), ([], 1),
      [Generated (js ''a''), Checked (js ''a'') False, Slept 2])"
  by (simp add: safe_def strategy_def always_reject_def backoff_delay_def)

text \<open>
  Claim C4, as the code has it. Every run is a sequence of rounds, one per rejected
  candidate: the candidate is generated, the predicate rejects it, and the loop sleeps
  for \<open>backoff_delay\<close> of the number of rejections so far (\<open>2 ^ attempts\<close> or
  \<open>100 * attempts\<close>). A successful run ends with one more generation and the accepting
  check. So no delay precedes the first attempt and none follows an accepted candidate;
  but a delay follows every rejection, the final one included: an exhausted run with
  \<open>maxAttempts > 0\<close> ends with the delay for \<open>attempts = maxAttempts\<close>.
\<close>

theorem backoff_follows_every_rejection:
  assumes run: "safe generate options w = (res, w', tr)"
  shows "\<exists>rej. (case res of
      Inr ident \<Rightarrow> tr = rejected_rounds (backoffType options) 0 rej @ [Generated ident, Checked ident True]
                  \<and> int (length rej) < maxAttempts options
                  \<and> is_Generated (hd tr) \<and> last tr = Checked ident True
    | Inl e \<Rightarrow> e = CollisionExhausted (maxAttempts options)
               \<and> tr = rejected_rounds (backoffType options) 0 rej
               \<and> (tr \<noteq> [] \<longrightarrow> is_Generated (hd tr))
               \<and> (0 < maxAttempts options \<longrightarrow> int (length rej) = maxAttempts options
                    \<and> last tr = Slept (backoff_delay (backoffType options) (nat (maxAttempts options)))))"
proof -
  from safe_loop_shape[OF run[unfolded safe_def]]
  obtain rej where r: "(case res of
      Inr ident \<Rightarrow> tr = [] @ rejected_rounds (backoffType options) 0 rej @ [Generated ident, Checked ident True]
                  \<and> int (0 + length rej) < maxAttempts options
    | Inl e \<Rightarrow> e = CollisionExhausted (maxAttempts options)
               \<and> tr = [] @ rejected_rounds (backoffType options) 0 rej
               \<and> (int 0 \<le> maxAttempts options \<longrightarrow> int (0 + length rej) = maxAttempts options))"
    by blast
  show ?thesis
  proof (cases res)
    case (Inr ident)
    with r rejected_rounds_hd[of "backoffType options" 0 rej ident "Checked ident True"]
    show ?thesis by (intro exI[of _ rej]) simp
  next
    case (Inl e)
    with r have t: "tr = rejected_rounds (backoffType options) 0 rej"
      and e: "e = CollisionExhausted (maxAttempts options)"
      and l: "0 \<le> maxAttempts options \<longrightarrow> int (length rej) = maxAttempts options"
      by simp_all
    have h: "tr \<noteq> [] \<longrightarrow> is_Generated (hd tr)"
      using t rejected_rounds_hd'[of rej] by (auto simp: rejected_rounds_Nil)
    have la: "0 < maxAttempts options \<longrightarrow> int (length rej) = maxAttempts options
                    \<and> last tr = Slept (backoff_delay (backoffType options) (nat (maxAttempts options)))"
    proof
      assume p: "0 < maxAttempts options"
      with l have len: "int (length rej) = maxAttempts options" by simp
      with p have "rej \<noteq> []" by auto
      from rejected_rounds_last[OF this, of "backoffType options" 0] t len
      show "int (length rej) = maxAttempts options
                    \<and> last tr = Slept (backoff_delay (backoffType options) (nat (maxAttempts options)))"
        by (simp flip: len)
    qed
    from Inl e t h la show ?thesis by (intro exI[of _ rej]) simp
  qed
qed

theorem backoff_follows_every_rejection_witness:
  "safe next_candidate (strategy 2 Linear always_reject) ([js ''a'', js ''b''], 0) =
     (Inl (CollisionExhausted 2), ([], 2),
      [Generated (js ''a''), Checked (js ''a'') False, Slept 100,
       Generated (js ''b''), Checked (js ''b'') False, Slept 200])
   \<and> (\<exists>rej. [Generated (js ''a''), Checked (js ''a'') False, Slept 100,
              Generated (js ''b''), Checked (js ''b'') False, Slept 200]
             = rejected_rounds Linear 0 rej
           \<and> length rej = 2)"
proof -
  have run: "safe next_candidate (strategy 2 Linear always_reject) ([js ''a'', js ''b''], 0) =
     (Inl (CollisionExhausted 2), ([], 2),
      [Generated (js ''a''), Checked (js ''a'') False, Slept 100,
       Generated (js ''b''), Checked (js ''b'') False, Slept 200])"
    by (simp add: safe_def strategy_def always_reject_def backoff_delay_def)
  from backoff_follows_every_rejection[OF run]
  show ?thesis using run by (auto simp: strategy_def)
qed

section \<open>Verified properties: random strings\<close>

text \<open>
  Claim C9 says that an empty alphabet raises an invalid-argument error. That fails on the code:
  nothing validates the alphabet. With an empty alphabet every index reads
  \<open>undefined\<close>, and joining five \<open>undefined\<close> entries gives the empty string.
\<close>

theorem empty_alphabet_returns_empty:
  "generateRandomString (\<lambda>i. 1 / 2) 5 [] = Inr []"
  by (simp add: generateRandomString_def random_char_def round_double_def)

text \<open>
  Claim C9, as the code has it. With an empty alphabet the result is the empty string,
  whatever length (up to the largest array length) is requested and whatever the random
  source draws; no error is raised. Length 0 yields the empty string for every alphabet.
\<close>

theorem generateRandomString_empty:
  "(len \<le> 2 ^ 32 - 1 \<longrightarrow> generateRandomString rnd len [] = Inr [])
   \<and> generateRandomString rnd 0 alphabet = Inr []"
  by (simp add: generateRandomString_def random_char_def round_double_def)

theorem generateRandomString_empty_witness:
  "(7::int) \<le> 2 ^ 32 - 1 \<and> generateRandomString (\<lambda>i. 1 / 4) 7 [] = Inr []
   \<and> generateRandomString (\<lambda>i. 1 / 4) 0 (js ''abc'') = Inr []"
  using generateRandomString_empty[of 7 "\<lambda>i. 1 / 4" "js ''abc''"] by simp

section \<open>Verified properties: Encoder.decode\<close>

text \<open>
  Claim C10. When an array of encodings is passed to \<open>Encoder.decode\<close>, the store
  after the call holds that array reversed (also when a decoding step throws), and the
  decodings are applied in the reversed order: the last encoding of the caller's array is
  decoded first, then the rest in mirror order.
\<close>

theorem decode_reverses_callers_array:
  assumes "heap a = Some encodings"
  shows "fst (Encoder_decode P heap input (EncodingArray a) autoDetect) = heap(a \<mapsto> rev encodings)
    \<and> snd (Encoder_decode P heap input (EncodingArray a) autoDetect)
        = decode_each P autoDetect (rev encodings) input
    \<and> (\<forall>first last_encoding. encodings = first @ [last_encoding] \<and> \<not> autoDetect \<longrightarrow>
         snd (Encoder_decode P heap input (EncodingArray a) autoDetect)
           = (case decode_fn P input last_encoding of
                Inl e \<Rightarrow> Inl e
              | Inr r \<Rightarrow> decode_each P False (rev first) r))"
  using assms by (auto simp: Encoder_decode_def)

theorem decode_reverses_callers_array_witness:
  "[5 \<mapsto> [1, 2, 3::nat]] (5::addr) = Some [1, 2, 3]
   \<and> fst (Encoder_decode mark_processor [5 \<mapsto> [1, 2, 3]] (Str [7, 1, 2, 3]) (EncodingArray 5) False) 5
       = Some [3, 2, 1]
   \<and> snd (Encoder_decode mark_processor [5 \<mapsto> [1, 2, 3]] (Str [7, 1, 2, 3]) (EncodingArray 5) False)
       = Inr (Str [7])"
proof -
  have h: "[5 \<mapsto> [1, 2, 3::nat]] (5::addr) = Some [1, 2, 3]" by simp
  from decode_reverses_callers_array[where heap="[5 \<mapsto> [1, 2, 3::nat]]" and a=5
      and encodings="[1, 2, 3]" and P=mark_processor and input="Str [7, 1, 2, 3]"
      and autoDetect=False, OF h]
  show ?thesis by (simp add: mark_processor_def)
qed

section \<open>Verified properties: checksums\<close>

lemma table_at_build: "table_at build_crc_table i = (if i < 256 then crc_entry i else 0)"
  by (simp add: table_at_def build_crc_table_def)

lemma crc_entry_unfold:
  "crc_entry i = crc_step (crc_step (crc_step (crc_step (crc_step (crc_step (crc_step (crc_step (of_nat i))))))))"
  by (simp add: crc_entry_def eval_nat_numeral)

lemma digit36_base36: "d < 36 \<Longrightarrow> is_base36_char (digit36 d)"
  by (auto simp: digit36_def is_base36_char_def)

lemma toString36_base36: "list_all is_base36_char (toString36 n)"
proof (induction n rule: toString36.induct)
  case (1 n)
  show ?case
  proof (cases "n < 36")
    case True
    then show ?thesis by (simp add: toString36.simps[of n] digit36_base36)
  next
    case False
    with 1 show ?thesis by (simp add: toString36.simps[of n] digit36_base36)
  qed
qed

lemma format_hash_length: "length (format_hash hash len) = len"
  by (auto simp: format_hash_def padStart_def Let_def)

lemma format_hash_base36: "list_all is_base36_char (format_hash hash len)"
  using toString36_base36[of hash]
  by (auto simp: format_hash_def padStart_def Let_def is_base36_char_def list_all_iff dest: in_set_takeD)

lemma crc32_cache:
  "cache_ok cache \<Longrightarrow> crc32 cache input = (fst (crc32 None input), Some build_crc_table)"
  by (auto simp: crc32_def getCRCTable_def cache_ok_def)

lemma compute_hash_crc:
  "cache_ok cache \<Longrightarrow> algorithm = js ''crc32'' \<Longrightarrow>
   compute_hash cache algorithm input = (fst (compute_hash None algorithm input), Some build_crc_table)"
proof -
  assume c: "cache_ok cache" and a: "algorithm = js ''crc32''"
  have n: "js ''crc32'' \<noteq> js ''djb2''" by (simp add: js_def)
  have "cache_ok None" by (simp add: cache_ok_def)
  from crc32_cache[OF this, of input]
  obtain h where h: "crc32 None input = (h, Some build_crc_table)" by blast
  with crc32_cache[OF c, of input] have "crc32 cache input = (h, Some build_crc_table)" by simp
  with h show ?thesis
    unfolding a compute_hash_def by (simp add: n)
qed

lemma compute_hash_other:
  "algorithm \<noteq> js ''crc32'' \<Longrightarrow>
   compute_hash cache algorithm input = (fst (compute_hash None algorithm input), cache)"
  by (simp add: compute_hash_def)

lemma compute_hash_total:
  assumes "algorithm \<in> set VALID_ALGORITHMS"
  shows "\<exists>hash cache'. compute_hash cache algorithm input = (Inr hash, cache') \<and> hash < 2 ^ 32"
proof -
  have u: "unat w < 4294967296" for w :: u32 using unsigned_less[of w, where ?'a = nat] by simp
  from assms consider "algorithm = js ''djb2''" | "algorithm = js ''crc32''"
    | "algorithm = js ''adler32''" | "algorithm = js ''fnv1a''" | "algorithm = js ''murmur3''"
    by (auto simp: VALID_ALGORITHMS_def)
  then show ?thesis
  proof cases
    case 1 then show ?thesis by (simp add: compute_hash_def djb2_def u js_def)
  next
    case 2 then show ?thesis
      by (simp add: compute_hash_def crc32_def u js_def split: prod.splits)
  next
    case 3 then show ?thesis by (simp add: compute_hash_def adler32_def u js_def split: prod.splits)
  next
    case 4 then show ?thesis by (simp add: compute_hash_def fnv1a_def u js_def)
  next
    case 5 then show ?thesis by (simp add: compute_hash_def murmur3_def Let_def u js_def)
  qed
qed

lemma validateInput_ok:
  "length input \<le> 1000000 \<Longrightarrow> algorithm \<in> set VALID_ALGORITHMS \<Longrightarrow> 1 \<le> n \<Longrightarrow> n \<le> 16 \<Longrightarrow>
   validateInput input algorithm (of_int n) = None"
  by (simp add: validateInput_def MAX_INPUT_LENGTH_def MIN_CHECKSUM_LENGTH_def MAX_CHECKSUM_LENGTH_def)

lemma Checksum_generate_valid:
  assumes "length input \<le> 1000000" "algorithm \<in> set VALID_ALGORITHMS" "1 \<le> n" "n \<le> 16"
    and "compute_hash cache algorithm input = (Inr hash, cache')"
  shows "Checksum_generate cache input algorithm (of_int n) = (Inr (format_hash hash (nat n)), cache')"
  using assms by (simp add: Checksum_generate_def validateInput_ok)

text \<open>
  Claim C8. For an input of at most 1,000,000 characters, one of the five algorithm
  names and an integer length \<open>n\<close> between 1 and 16, \<open>Checksum.generate\<close> returns a
  digest of exactly \<open>n\<close> characters: the base-36 rendering of the hash (a number below
  \<open>2^32\<close>), padded on the left with \<open>0\<close> (code 48) when it is shorter than \<open>n\<close>
  and cut to its first \<open>n\<close> characters otherwise.
\<close>

theorem generate_has_requested_length:
  assumes "length input \<le> 1000000" and "algorithm \<in> set VALID_ALGORITHMS"
    and "1 \<le> n" and "n \<le> 16"
  shows "\<exists>hash cache' digest.
           compute_hash cache algorithm input = (Inr hash, cache') \<and> hash < 2 ^ 32
         \<and> Checksum_generate cache input algorithm (of_int n) = (Inr digest, cache')
         \<and> digest = (if length (toString36 hash) < nat n
                      then replicate (nat n - length (toString36 hash)) 48 @ toString36 hash
                      else take (nat n) (toString36 hash))
         \<and> length digest = nat n"
proof -
  from compute_hash_total[OF assms(2), of cache input]
  obtain hash cache' where h: "compute_hash cache algorithm input = (Inr hash, cache')"
    and b: "hash < 2 ^ 32" by blast
  from Checksum_generate_valid[OF assms h]
  have g: "Checksum_generate cache input algorithm (of_int n) = (Inr (format_hash hash (nat n)), cache')" .
  have f: "format_hash hash (nat n) = (if length (toString36 hash) < nat n
                      then replicate (nat n - length (toString36 hash)) 48 @ toString36 hash
                      else take (nat n) (toString36 hash))"
    by (simp add: format_hash_def padStart_def Let_def)
  from h b g f format_hash_length[of hash "nat n"] show ?thesis by metis
qed

theorem generate_has_requested_length_witness:
  "length (js ''data'') \<le> 1000000 \<and> js ''fnv1a'' \<in> set VALID_ALGORITHMS \<and> (1::int) \<le> 8 \<and> (8::int) \<le> 16
   \<and> (\<exists>hash cache' digest.
           compute_hash None (js ''fnv1a'') (js ''data'') = (Inr hash, cache') \<and> hash < 2 ^ 32
         \<and> Checksum_generate None (js ''data'') (js ''fnv1a'') 8 = (Inr digest, cache')
         \<and> length digest = 8)"
proof -
  have a: "length (js ''data'') \<le> 1000000" by (simp add: js_def)
  have b: "js ''fnv1a'' \<in> set VALID_ALGORITHMS" by (simp add: VALID_ALGORITHMS_def)
  from generate_has_requested_length[OF a b, of 8 None] a b show ?thesis
    by auto
qed

lemma compute_hash_ok:
  assumes "cache_ok c"
  shows "\<exists>c'. compute_hash c algorithm input = (fst (compute_hash None algorithm input), c')
            \<and> cache_ok c'
            \<and> compute_hash c' algorithm input = (fst (compute_hash None algorithm input), c')"
proof (cases "algorithm = js ''crc32''")
  case True
  have "cache_ok (Some build_crc_table)" by (simp add: cache_ok_def)
  with compute_hash_crc[OF assms True, of input] compute_hash_crc[OF this True, of input]
  show ?thesis by blast
next
  case False
  with compute_hash_other[OF False, of c input] assms show ?thesis by blast
qed

lemma Checksum_validate_own_digest:
  assumes "Checksum_generate c input algorithm len = (Inr (format_hash hash k), c)" and "0 < k"
  shows "Checksum_validate c input (format_hash hash k) algorithm len = (Inr True, c)"
proof -
  have "length (format_hash hash k) \<noteq> 0" using assms(2) by (simp add: format_hash_length)
  with assms(1) format_hash_base36[of hash k] show ?thesis
    by (simp add: Checksum_validate_def)
qed

lemma crc32_data: "crc32 None (js ''data'') = (2918445923, Some build_crc_table)"
  by (simp add: crc32_def getCRCTable_def table_at_build js_def crc_entry_unfold crc_step_def)

lemma fnv1a_data: "fnv1a (js ''data'') = 3631407781"
  by (simp add: fnv1a_def js_def)

lemma format_crc32_data: "format_hash 2918445923 8 = js ''01c9kfab''"
  by (simp add: format_hash_def toString36.simps digit36_def padStart_def js_def)

lemma format_fnv1a_data: "format_hash 3631407781 8 = js ''01o21o6d''"
  by (simp add: format_hash_def toString36.simps digit36_def padStart_def js_def)

lemma generate_crc32_data:
  "Checksum_generate None (js ''data'') (js ''crc32'') 8 = (Inr (js ''01c9kfab''), Some build_crc_table)"
proof -
  have v: "validateInput (js ''data'') (js ''crc32'') 8 = None"
    using validateInput_ok[of "js ''data''" "js ''crc32''" 8]
    by (simp add: VALID_ALGORITHMS_def js_def)
  have n: "js ''crc32'' \<noteq> js ''djb2''" by (simp add: js_def)
  show ?thesis
    by (simp add: Checksum_generate_def v compute_hash_def n crc32_data format_crc32_data)
qed

lemma generate_fnv1a_data:
  "Checksum_generate c (js ''data'') (js ''fnv1a'') 8 = (Inr (js ''01o21o6d''), c)"
proof -
  have v: "validateInput (js ''data'') (js ''fnv1a'') 8 = None"
    using validateInput_ok[of "js ''data''" "js ''fnv1a''" 8]
    by (simp add: VALID_ALGORITHMS_def js_def)
  have n: "js ''fnv1a'' \<noteq> js ''djb2''" "js ''fnv1a'' \<noteq> js ''crc32''" "js ''fnv1a'' \<noteq> js ''adler32''"
    by (simp_all add: js_def)
  show ?thesis
    by (simp add: Checksum_generate_def v compute_hash_def n fnv1a_data format_fnv1a_data)
qed

text \<open>
  Claim C7. For valid arguments the digest does not depend on the state of the CRC table
  cache, so two calls on identical arguments yield identical digests, and validating the
  digest that \<open>Checksum.generate\<close> returned, under the same algorithm and length, gives
  true. For the input \<open>data\<close> at length 8, the crc32 digest validates under crc32 and
  does not validate under fnv1a.
\<close>

theorem generate_deterministic_and_validates:
  "(length input \<le> 1000000 \<and> algorithm \<in> set VALID_ALGORITHMS \<and> 1 \<le> n \<and> n \<le> 16
      \<and> cache_ok c1 \<and> cache_ok c2 \<longrightarrow>
      fst (Checksum_generate c1 input algorithm (of_int n))
        = fst (Checksum_generate c2 input algorithm (of_int n))
      \<and> (\<exists>digest c'. Checksum_generate c1 input algorithm (of_int n) = (Inr digest, c')
            \<and> cache_ok c'
            \<and> Checksum_generate c' input algorithm (of_int n) = (Inr digest, c')
            \<and> Checksum_validate c' input digest algorithm (of_int n) = (Inr True, c')))
   \<and> (\<exists>digest c'. Checksum_generate None (js ''data'') (js ''crc32'') 8 = (Inr digest, c')
         \<and> Checksum_validate c' (js ''data'') digest (js ''crc32'') 8 = (Inr True, c')
         \<and> Checksum_validate c' (js ''data'') digest (js ''fnv1a'') 8 = (Inr False, c'))"
proof (intro conjI impI)
  assume a: "length input \<le> 1000000 \<and> algorithm \<in> set VALID_ALGORITHMS \<and> 1 \<le> n \<and> n \<le> 16
      \<and> cache_ok c1 \<and> cache_ok c2"
  then have len: "length input \<le> 1000000" and alg: "algorithm \<in> set VALID_ALGORITHMS"
    and n1: "1 \<le> n" and n16: "n \<le> 16" and ok1: "cache_ok c1" and ok2: "cache_ok c2"
    by simp_all
  from compute_hash_total[OF alg, of None input]
  obtain hash where h: "fst (compute_hash None algorithm input) = Inr hash" by auto
  from compute_hash_ok[OF ok1, of algorithm input] h
  obtain c1' where s1: "compute_hash c1 algorithm input = (Inr hash, c1')" and ok1': "cache_ok c1'"
    and s1': "compute_hash c1' algorithm input = (Inr hash, c1')" by auto
  from compute_hash_ok[OF ok2, of algorithm input] h
  obtain c2' where s2: "compute_hash c2 algorithm input = (Inr hash, c2')" by auto
  note g1 = Checksum_generate_valid[OF len alg n1 n16 s1]
  note g1' = Checksum_generate_valid[OF len alg n1 n16 s1']
  note g2 = Checksum_generate_valid[OF len alg n1 n16 s2]
  from g1 g2
  show "fst (Checksum_generate c1 input algorithm (of_int n))
        = fst (Checksum_generate c2 input algorithm (of_int n))" by simp
  have "0 < nat n" using n1 by simp
  from Checksum_validate_own_digest[OF g1' this] g1 g1' ok1'
  show "\<exists>digest c'. Checksum_generate c1 input algorithm (of_int n) = (Inr digest, c')
            \<and> cache_ok c'
            \<and> Checksum_generate c' input algorithm (of_int n) = (Inr digest, c')
            \<and> Checksum_validate c' input digest algorithm (of_int n) = (Inr True, c')"
    by blast
next
  let ?c = "Some build_crc_table"
  have ok: "cache_ok ?c" by (simp add: cache_ok_def)
  have b: "\<not> length (js ''01c9kfab'') = 0" "list_all is_base36_char (js ''01c9kfab'')"
    by (simp_all add: js_def is_base36_char_def)
  have ne: "toLowerCase (js ''01o21o6d'') \<noteq> toLowerCase (js ''01c9kfab'')"
    by (simp add: js_def toLowerCase_def)
  have f: "Checksum_validate ?c (js ''data'') (js ''01c9kfab'') (js ''fnv1a'') 8 = (Inr False, ?c)"
    using b ne by (simp add: Checksum_validate_def generate_fnv1a_data)
  have g': "Checksum_generate ?c (js ''data'') (js ''crc32'') 8 = (Inr (js ''01c9kfab''), ?c)"
  proof -
    have v: "validateInput (js ''data'') (js ''crc32'') 8 = None"
      using validateInput_ok[of "js ''data''" "js ''crc32''" 8]
      by (simp add: VALID_ALGORITHMS_def js_def)
    have n: "js ''crc32'' \<noteq> js ''djb2''" by (simp add: js_def)
    have "compute_hash None (js ''crc32'') (js ''data'') = (Inr 2918445923, ?c)"
      by (simp add: compute_hash_def n crc32_data)
    with compute_hash_crc[OF ok refl, of "js ''data''"]
    have "compute_hash ?c (js ''crc32'') (js ''data'') = (Inr 2918445923, ?c)"
      by simp
    then show ?thesis
      by (simp add: Checksum_generate_def v format_crc32_data)
  qed
  have t: "Checksum_validate ?c (js ''data'') (js ''01c9kfab'') (js ''crc32'') 8 = (Inr True, ?c)"
    using b by (simp add: Checksum_validate_def g')
  from generate_crc32_data t f
  show "\<exists>digest c'. Checksum_generate None (js ''data'') (js ''crc32'') 8 = (Inr digest, c')
         \<and> Checksum_validate c' (js ''data'') digest (js ''crc32'') 8 = (Inr True, c')
         \<and> Checksum_validate c' (js ''data'') digest (js ''fnv1a'') 8 = (Inr False, c')"
    by blast
qed

theorem generate_deterministic_and_validates_witness:
  "(length (js ''abc'') \<le> 1000000 \<and> js ''adler32'' \<in> set VALID_ALGORITHMS \<and> (1::int) \<le> 6 \<and> (6::int) \<le> 16
      \<and> cache_ok None \<and> cache_ok (Some build_crc_table))
   \<and> fst (Checksum_generate None (js ''abc'') (js ''adler32'') 6)
        = fst (Checksum_generate (Some build_crc_table) (js ''abc'') (js ''adler32'') 6)
   \<and> (\<exists>digest c'. Checksum_generate None (js ''abc'') (js ''adler32'') 6 = (Inr digest, c')
            \<and> Checksum_validate c' (js ''abc'') digest (js ''adler32'') 6 = (Inr True, c'))"
proof -
  have h: "length (js ''abc'') \<le> 1000000 \<and> js ''adler32'' \<in> set VALID_ALGORITHMS \<and> (1::int) \<le> 6 \<and> (6::int) \<le> 16
      \<and> cache_ok None \<and> cache_ok (Some build_crc_table)"
    by (simp add: js_def VALID_ALGORITHMS_def cache_ok_def)
  from generate_deterministic_and_validates[of "js ''abc''" "js ''adler32''" 6 None "Some build_crc_table"] h
  show ?thesis by (simp del: One_nat_def) blast
qed

section \<open>Verified properties: compression\<close>

text \<open>
  Claim C2 says that \<open>decompress(compress(s, m), m) = s\<close> for every non-empty string of
  code points up to 255 and both modes. In the mode \<open>gzip\<close> the code fails on the
  input \<open>aaa\<close>: the dictionary scheme emits the codes 97 and 256, the second of which
  becomes a character beyond 255, and \<open>btoa\<close> throws an InvalidCharacterError, so
  \<open>compress\<close> returns nothing that could be decompressed.
\<close>

theorem gzip_compress_throws:
  "Encoder_compress (Str (js ''aaa'')) (Some (JStr (js ''gzip''))) = Inl InvalidCharacterError
   \<and> lzw_compress (js ''aaa'') initial_dictionary 256 [] [] = [Some 97, Some 256]"
  by (simp add: Encoder_compress_def js_def initial_dictionary_def btoa_def fromCharCode_def Let_def)

text \<open>The empty string is returned unchanged in both directions, whatever the mode.\<close>

lemma compress_empty:
  "Encoder_compress (Str []) method = Inr (Str []) \<and> Encoder_decompress (Str []) method = Str []"
  by (simp add: Encoder_compress_def Encoder_decompress_def)

section \<open>Verified properties: the encoding pipeline\<close>

lemmas b64_defs = atob_def btoa_def strip_padding_def ascii_whitespace_def b64_value_def b64_char_def
lemmas json_defs = JSON_parse_def step_def step_value_def step_after_def close_array_def
  close_object_def json_whitespace_def is_digit_def number_char_def escape_char_def hex_value_def
  valid_number_def valid_fraction_def valid_exponent_def
lemmas stringify_defs = config_of_def quote_def quote_char_def is_high_surrogate_def
  is_low_surrogate_def unicode_escape_def hex_digit_def

lemma split_on_nonempty: "split_on sep s \<noteq> []"
  by (induction s) (auto split: list.splits)

lemma split_on_hd: "hd (split_on sep s) = takeWhile (\<lambda>c. c \<noteq> sep) s"
  using split_on_nonempty[of sep]
  by (induction s) (auto split: list.splits)

lemma split_on_prefix: "sep \<notin> set b \<Longrightarrow> split_on sep (b @ sep # rest) = b # split_on sep rest"
  by (induction b) auto

lemma split_limit_envelope:
  assumes "sep \<notin> set b"
  shows "split_limit sep 2 (b @ sep # rest) = [b, takeWhile (\<lambda>c. c \<noteq> sep) rest]"
proof -
  obtain p ps where p: "split_on sep rest = p # ps"
    using split_on_nonempty[of sep rest] by (cases "split_on sep rest") auto
  with split_on_hd[of sep rest] have "p = takeWhile (\<lambda>c. c \<noteq> sep) rest" by simp
  with p split_on_prefix[OF assms, of rest] show ?thesis
    by (simp add: split_limit_def)
qed

lemma envelope_decomposition:
  assumes "sep \<in> set input"
  shows "input = takeWhile (\<lambda>c. c \<noteq> sep) input @ sep # tl (dropWhile (\<lambda>c. c \<noteq> sep) input)
       \<and> sep \<notin> set (takeWhile (\<lambda>c. c \<noteq> sep) input)"
proof -
  from assms have "dropWhile (\<lambda>c. c \<noteq> sep) input \<noteq> []" by (simp add: dropWhile_eq_Nil_conv)
  moreover from this have "hd (dropWhile (\<lambda>c. c \<noteq> sep) input) = sep"
    using hd_dropWhile[of "\<lambda>c. c \<noteq> sep" input] by simp
  ultimately have "dropWhile (\<lambda>c. c \<noteq> sep) input = sep # tl (dropWhile (\<lambda>c. c \<noteq> sep) input)"
    by (cases "dropWhile (\<lambda>c. c \<noteq> sep) input") auto
  with takeWhile_dropWhile_id[of "\<lambda>c. c \<noteq> sep" input]
  have "input = takeWhile (\<lambda>c. c \<noteq> sep) input @ sep # tl (dropWhile (\<lambda>c. c \<noteq> sep) input)"
    by metis
  moreover have "sep \<notin> set (takeWhile (\<lambda>c. c \<noteq> sep) input)"
    by (auto dest: set_takeWhileD)
  ultimately show ?thesis by blast
qed

text \<open>The two pieces that \<open>reverse\<close> works on: the text before the first delimiter and
  the text between the first and the second delimiter (or the end).\<close>

lemma split_limit_pieces:
  assumes "sep \<in> set input"
  shows "split_limit sep 2 input =
           [takeWhile (\<lambda>c. c \<noteq> sep) input,
            takeWhile (\<lambda>c. c \<noteq> sep) (tl (dropWhile (\<lambda>c. c \<noteq> sep) input))]"
  using envelope_decomposition[OF assms]
    split_limit_envelope[of sep "takeWhile (\<lambda>c. c \<noteq> sep) input" "tl (dropWhile (\<lambda>c. c \<noteq> sep) input)"]
  by simp

lemma reverse_body_unfold:
  assumes "58 \<in> set input"
  shows "reverse_body P input =
     (case atob (takeWhile (\<lambda>c. c \<noteq> 58) input) of
           Inl e \<Rightarrow> Inl e
         | Inr decoded \<Rightarrow>
             (case JSON_parse decoded of
                Inl e \<Rightarrow> Inl e
              | Inr config \<Rightarrow>
                  (case get_member config (js ''c'') of
                     Inl e \<Rightarrow> Inl e
                   | Inr c \<Rightarrow>
                       (let content = Str (takeWhile (\<lambda>c. c \<noteq> 58) (tl (dropWhile (\<lambda>c. c \<noteq> 58) input)));
                            result = (if c \<noteq> Some (JStr (js ''none''))
                                      then Encoder_decompress content c else content)
                        in case get_member config (js ''e'') of
                             Inl e \<Rightarrow> Inl e
                           | Inr e \<Rightarrow>
                               (case length_gt_zero e of
                                  Inl err \<Rightarrow> Inl err
                                | Inr False \<Rightarrow> Inr result
                                | Inr True \<Rightarrow>
                                    (case e of
                                       Some (JArr xs) \<Rightarrow>
                                         snd (Encoder_decode P [0 \<mapsto> xs] result (EncodingArray 0) False)
                                     | Some v \<Rightarrow>
                                         snd (Encoder_decode P Map.empty result (OneEncoding v) False)
                                     | None \<Rightarrow> Inl TypeError))))))"
proof -
  have e0: "element [a, b] 0 = Str a" and e1: "element [a, b] 1 = Str b" for a b
    by (simp_all add: element_def)
  show ?thesis
    unfolding reverse_body_def split_limit_pieces[OF assms] Let_def e0 e1 to_text_def jsval.case
    by (rule refl)
qed

lemma atob_cfg_none:
  "atob (js ''eyJlIjpbXSwiYyI6Im5vbmUiLCJtIjp7fX0='') = Inr (js ''{\"e\":[],\"c\":\"none\",\"m\":{}}'')"
  by (simp add: b64_defs js_def)

lemma parse_cfg_none:
  "JSON_parse (js ''{\"e\":[],\"c\":\"none\",\"m\":{}}'')
     = Inr (JObj [(js ''e'', JArr []), (js ''c'', JStr (js ''none'')), (js ''m'', JObj [])])"
  by (simp add: json_defs js_def)

lemma stringify_cfg_none:
  "stringify (config_of (pipeline [] (js ''none''))) = js ''{\"e\":[],\"c\":\"none\",\"m\":{}}''"
  by (simp add: stringify_defs pipeline_def js_def)

lemma atob_cfg_lz77:
  "atob (js ''eyJlIjpbXSwiYyI6Imx6NzciLCJtIjp7fX0='') = Inr (js ''{\"e\":[],\"c\":\"lz77\",\"m\":{}}'')"
  by (simp add: b64_defs js_def)

lemma parse_cfg_lz77:
  "JSON_parse (js ''{\"e\":[],\"c\":\"lz77\",\"m\":{}}'')
     = Inr (JObj [(js ''e'', JArr []), (js ''c'', JStr (js ''lz77'')), (js ''m'', JObj [])])"
  by (simp add: json_defs js_def)

lemma atob_cfg_base64:
  "atob (js ''eyJlIjpbImJhc2U2NCJdLCJjIjoibm9uZSIsIm0iOnt9fQ=='')
     = Inr (js ''{\"e\":[\"base64\"],\"c\":\"none\",\"m\":{}}'')"
  by (simp add: b64_defs js_def)

lemma parse_cfg_base64:
  "JSON_parse (js ''{\"e\":[\"base64\"],\"c\":\"none\",\"m\":{}}'')
     = Inr (JObj [(js ''e'', JArr [JStr (js ''base64'')]), (js ''c'', JStr (js ''none'')), (js ''m'', JObj [])])"
  by (simp add: json_defs js_def)

lemma no_colon_in_cfg:
  "58 \<notin> set (js ''eyJlIjpbXSwiYyI6Im5vbmUiLCJtIjp7fX0='')"
  "58 \<notin> set (js ''eyJlIjpbXSwiYyI6Imx6NzciLCJtIjp7fX0='')"
  "58 \<notin> set (js ''eyJlIjpbImJhc2U2NCJdLCJjIjoibm9uZSIsIm0iOnt9fQ=='')"
  by (simp_all add: js_def)

lemma envelope_pieces:
  "sep \<notin> set b \<Longrightarrow>
   takeWhile (\<lambda>c. c \<noteq> sep) (b @ sep # rest) = b
   \<and> tl (dropWhile (\<lambda>c. c \<noteq> sep) (b @ sep # rest)) = rest"
  by (induction b) auto

lemma reverse_body_plain:
  assumes "58 \<notin> set b" and "atob b = Inr decoded" and "JSON_parse decoded = Inr (JObj kvs)"
    and "obj_get kvs (js ''c'') = Some (JStr (js ''none''))"
    and "obj_get kvs (js ''e'') = Some (JArr [])"
  shows "reverse_body P (b @ 58 # rest) = Inr (Str (takeWhile (\<lambda>c. c \<noteq> 58) rest))"
proof -
  note t = envelope_pieces[OF assms(1), of rest, THEN conjunct1]
  note d = envelope_pieces[OF assms(1), of rest, THEN conjunct2]
  have "58 \<in> set (b @ 58 # rest)" by simp
  from reverse_body_unfold[OF this, of P] show ?thesis
    by (simp add: t d assms get_member_def length_gt_zero_def)
qed

lemma reverse_body_decompress:
  assumes "58 \<notin> set b" and "atob b = Inr decoded" and "JSON_parse decoded = Inr (JObj kvs)"
    and "obj_get kvs (js ''c'') = c" and "c \<noteq> Some (JStr (js ''none''))"
    and "obj_get kvs (js ''e'') = Some (JArr [])"
  shows "reverse_body P (b @ 58 # rest)
           = Inr (Encoder_decompress (Str (takeWhile (\<lambda>c. c \<noteq> 58) rest)) c)"
proof -
  note t = envelope_pieces[OF assms(1), of rest, THEN conjunct1]
  note d = envelope_pieces[OF assms(1), of rest, THEN conjunct2]
  have "58 \<in> set (b @ 58 # rest)" by simp
  from reverse_body_unfold[OF this, of P] show ?thesis
    by (simp add: t d assms get_member_def length_gt_zero_def)
qed

lemma obj_get_cfg:
  "obj_get [(js ''e'', ev), (js ''c'', cv), (js ''m'', mv)] (js ''c'') = Some cv"
  "obj_get [(js ''e'', ev), (js ''c'', cv), (js ''m'', mv)] (js ''e'') = Some ev"
  by (simp_all add: obj_get_def js_def)

text \<open>
  Claim C5 says that the payload is the entire remainder after the first delimiter. On
  the code, \<open>input.split(":", 2)\<close> cuts the input at every delimiter and keeps the
  first two pieces, so the payload ends at the second delimiter: for the envelope of the
  configuration \<open>{"e":[],"c":"none","m":{}}\<close> with the payload \<open>a:b\<close> the pieces
  are the configuration segment and \<open>a\<close>, and \<open>reverse\<close> returns \<open>a\<close>.
\<close>

theorem reverse_payload_stops_at_second_delimiter:
  "split_limit 58 2 (js ''eyJlIjpbXSwiYyI6Im5vbmUiLCJtIjp7fX0='' @ 58 # js ''a:b'')
     = [js ''eyJlIjpbXSwiYyI6Im5vbmUiLCJtIjp7fX0='', js ''a'']
   \<and> reverse None (js ''eyJlIjpbXSwiYyI6Im5vbmUiLCJtIjp7fX0='' @ 58 # js ''a:b'') = Some (Str (js ''a''))"
proof -
  have tw: "takeWhile (\<lambda>c. c \<noteq> 58) (js ''a:b'') = js ''a''" by (simp add: js_def)
  from split_limit_envelope[OF no_colon_in_cfg(1), of "js ''a:b''"] tw
  have s: "split_limit 58 2 (js ''eyJlIjpbXSwiYyI6Im5vbmUiLCJtIjp7fX0='' @ 58 # js ''a:b'')
     = [js ''eyJlIjpbXSwiYyI6Im5vbmUiLCJtIjp7fX0='', js ''a'']" by simp
  from reverse_body_plain[OF no_colon_in_cfg(1) atob_cfg_none parse_cfg_none obj_get_cfg, of "wrapper None" "js ''a:b''"] tw
  have "reverse None (js ''eyJlIjpbXSwiYyI6Im5vbmUiLCJtIjp7fX0='' @ 58 # js ''a:b'') = Some (Str (js ''a''))"
    by (simp add: reverse_def)
  with s show ?thesis by simp
qed

lemma decompress_returns_input:
  assumes "payload \<noteq> []" and "atob payload = Inl err" and "m = js ''lz77'' \<or> m = js ''gzip''"
  shows "Encoder_decompress (Str payload) (Some (JStr m)) = Str payload"
  using assms by (auto simp: Encoder_decompress_def)

text \<open>
  Claim C6 says that a failing decompression makes \<open>reverse\<close> return the sentinel. That
  fails on the code. \<open>Encoder.decompress\<close> catches its own errors and returns its input: for the
  configuration \<open>{"e":[],"c":"lz77","m":{}}\<close> and the payload \<open>!!!\<close>, which is not
  base64, \<open>reverse\<close> returns \<open>!!!\<close>.
\<close>

theorem reverse_after_failed_decompression:
  "atob (js ''!!!'') = Inl InvalidCharacterError
   \<and> reverse None (js ''eyJlIjpbXSwiYyI6Imx6NzciLCJtIjp7fX0=:!!!'') = Some (Str (js ''!!!''))"
proof -
  have a: "atob (js ''!!!'') = Inl InvalidCharacterError" by (simp add: b64_defs js_def)
  have ne: "js ''!!!'' \<noteq> []" by (simp add: js_def)
  have tw: "takeWhile (\<lambda>c. c \<noteq> 58) (js ''!!!'') = js ''!!!''" by (simp add: js_def)
  have c: "Some (JStr (js ''lz77'')) \<noteq> Some (JStr (js ''none''))" by (simp add: js_def)
  have env: "js ''eyJlIjpbXSwiYyI6Imx6NzciLCJtIjp7fX0=:!!!''
               = js ''eyJlIjpbXSwiYyI6Imx6NzciLCJtIjp7fX0='' @ 58 # js ''!!!''"
    by (simp add: js_def)
  from reverse_body_decompress[OF no_colon_in_cfg(2) atob_cfg_lz77 parse_cfg_lz77 obj_get_cfg(1) c obj_get_cfg(2),
      of "wrapper None" "js ''!!!''"]
    decompress_returns_input[OF ne a, of "js ''lz77''"]
  have "reverse None (js ''eyJlIjpbXSwiYyI6Imx6NzciLCJtIjp7fX0='' @ 58 # js ''!!!'') = Some (Str (js ''!!!''))"
    by (simp add: reverse_def tw)
  with a env show ?thesis by simp
qed

lemma atob_cfg_base64_lz77:
  "atob (js ''eyJlIjpbImJhc2U2NCJdLCJjIjoibHo3NyIsIm0iOnt9fQ=='')
     = Inr (js ''{\"e\":[\"base64\"],\"c\":\"lz77\",\"m\":{}}'')"
  by (simp add: b64_defs js_def)

lemma parse_cfg_base64_lz77:
  "JSON_parse (js ''{\"e\":[\"base64\"],\"c\":\"lz77\",\"m\":{}}'')
     = Inr (JObj [(js ''e'', JArr [JStr (js ''base64'')]), (js ''c'', JStr (js ''lz77'')), (js ''m'', JObj [])])"
  by (simp add: json_defs js_def)

lemma atob_cfg_single_gzip:
  "atob (js ''eyJlIjoiYmFzZTY0IiwiYyI6Imd6aXAiLCJtIjp7fX0='')
     = Inr (js ''{\"e\":\"base64\",\"c\":\"gzip\",\"m\":{}}'')"
  by (simp add: b64_defs js_def)

lemma parse_cfg_single_gzip:
  "JSON_parse (js ''{\"e\":\"base64\",\"c\":\"gzip\",\"m\":{}}'')
     = Inr (JObj [(js ''e'', JStr (js ''base64'')), (js ''c'', JStr (js ''gzip'')), (js ''m'', JObj [])])"
  by (simp add: json_defs js_def)

lemma atob_cfg_hex_lz77:
  "atob (js ''eyJlIjpbImhleCJdLCJjIjoibHo3NyIsIm0iOnt9fQ=='')
     = Inr (js ''{\"e\":[\"hex\"],\"c\":\"lz77\",\"m\":{}}'')"
  by (simp add: b64_defs js_def)

lemma parse_cfg_hex_lz77:
  "JSON_parse (js ''{\"e\":[\"hex\"],\"c\":\"lz77\",\"m\":{}}'')
     = Inr (JObj [(js ''e'', JArr [JStr (js ''hex'')]), (js ''c'', JStr (js ''lz77'')), (js ''m'', JObj [])])"
  by (simp add: json_defs js_def)

lemma no_colon_in_cfg2:
  "58 \<notin> set (js ''eyJlIjpbImJhc2U2NCJdLCJjIjoibHo3NyIsIm0iOnt9fQ=='')"
  "58 \<notin> set (js ''eyJlIjoiYmFzZTY0IiwiYyI6Imd6aXAiLCJtIjp7fX0='')"
  "58 \<notin> set (js ''eyJlIjpbImhleCJdLCJjIjoibHo3NyIsIm0iOnt9fQ=='')"
  by (simp_all add: js_def)

text \<open>The payload after the decompression stage of \<open>reverse\<close>.\<close>

lemma reverse_body_decode_any:
  assumes "58 \<notin> set b" and "atob b = Inr decoded" and "JSON_parse decoded = Inr (JObj kvs)"
    and "obj_get kvs (js ''c'') = c"
    and "obj_get kvs (js ''e'') = Some (JArr xs)" and "xs \<noteq> []"
  shows "reverse_body P (b @ 58 # rest)
           = decode_each P False (rev xs)
               (if c \<noteq> Some (JStr (js ''none''))
                then Encoder_decompress (Str (takeWhile (\<lambda>c. c \<noteq> 58) rest)) c
                else Str (takeWhile (\<lambda>c. c \<noteq> 58) rest))"
proof -
  note t = envelope_pieces[OF assms(1), of rest, THEN conjunct1]
  note d = envelope_pieces[OF assms(1), of rest, THEN conjunct2]
  have "58 \<in> set (b @ 58 # rest)" by simp
  from reverse_body_unfold[OF this, of P] show ?thesis
    by (simp add: t d assms get_member_def length_gt_zero_def Encoder_decode_def)
qed

lemma reverse_body_decode_single:
  assumes "58 \<notin> set b" and "atob b = Inr decoded" and "JSON_parse decoded = Inr (JObj kvs)"
    and "obj_get kvs (js ''c'') = c"
    and "obj_get kvs (js ''e'') = Some v" and "\<forall>xs. v \<noteq> JArr xs"
    and "length_gt_zero (Some v) = Inr True"
  shows "reverse_body P (b @ 58 # rest)
           = decode_each P False [v]
               (if c \<noteq> Some (JStr (js ''none''))
                then Encoder_decompress (Str (takeWhile (\<lambda>c. c \<noteq> 58) rest)) c
                else Str (takeWhile (\<lambda>c. c \<noteq> 58) rest))"
proof -
  note t = envelope_pieces[OF assms(1), of rest, THEN conjunct1]
  note d = envelope_pieces[OF assms(1), of rest, THEN conjunct2]
  have "58 \<in> set (b @ 58 # rest)" by simp
  from reverse_body_unfold[OF this, of P] assms(2-7) show ?thesis
    by (cases v) (simp_all add: t d get_member_def Encoder_decode_def Let_def)
qed

lemma reverse_after_decompression_failed:
  assumes "58 \<notin> set b" and "atob b = Inr decoded" and "JSON_parse decoded = Inr (JObj kvs)"
    and "obj_get kvs (js ''c'') = Some (JStr m)"
    and "obj_get kvs (js ''e'') = Some (JArr xs)"
    and "takeWhile (\<lambda>c. c \<noteq> 58) rest = payload" and "payload \<noteq> []"
    and "atob payload = Inl err" and "m = js ''lz77'' \<or> m = js ''gzip''"
  shows "reverse_body P (b @ 58 # rest) = decode_each P False (rev xs) (Str payload)"
proof -
  from assms(9) have c: "Some (JStr m) \<noteq> Some (JStr (js ''none''))" by (auto simp: js_def)
  from assms(7-9) have dd: "Encoder_decompress (Str payload) (Some (JStr m)) = Str payload"
    using decompress_returns_input[of payload err m] by simp
  show ?thesis
  proof (cases "xs = []")
    case True
    from assms(5) True have e: "obj_get kvs (js ''e'') = Some (JArr [])" by simp
    from reverse_body_decompress[OF assms(1-4) c e, of P rest] assms(6) dd True
    show ?thesis by simp
  next
    case False
    from reverse_body_decode_any[OF assms(1-5) False, of P rest] assms(6) dd c
    show ?thesis by simp
  qed
qed

text \<open>
  Claim C6, as the code has it. \<open>reverse\<close> returns a value for every input and never
  raises. It returns the sentinel \<open>null\<close> (\<open>None\<close>) when the input has no delimiter,
  when the text before the first delimiter is not base64, when the decoded configuration
  is not JSON, and when a decoding step of \<open>Encoder.decode\<close> throws, whatever the
  compression method of the configuration is and whether the configuration names an
  array of encodings or a single one: the decoding runs on the payload as
  \<open>Encoder.decompress\<close> left it. A failing decompression is different:
  \<open>Encoder.decompress\<close> returns the payload unchanged and \<open>reverse\<close> goes on with that
  payload. With an empty encoding list it returns the payload, not the sentinel; with
  encodings it returns the sentinel when decoding the unchanged payload throws, and with
  the external package \<open>p\<close> loaded it returns whatever the decoding of the unchanged
  payload by \<open>p\<close> returns.
\<close>

theorem reverse_failures_give_null:
  "(58 \<notin> set input \<longrightarrow> reverse processor input = None)
   \<and> (atob (takeWhile (\<lambda>c. c \<noteq> 58) input) = Inl err1 \<longrightarrow> reverse processor input = None)
   \<and> (atob (takeWhile (\<lambda>c. c \<noteq> 58) input) = Inr decoded1 \<and> JSON_parse decoded1 = Inl err2 \<longrightarrow>
        reverse processor input = None)
   \<and> (58 \<notin> set b \<and> atob b = Inr decoded \<and> JSON_parse decoded = Inr (JObj kvs)
        \<and> obj_get kvs (js ''c'') = c
        \<and> obj_get kvs (js ''e'') = Some (JArr xs) \<and> xs \<noteq> []
        \<and> decode_each (wrapper processor) False (rev xs)
             (if c \<noteq> Some (JStr (js ''none''))
              then Encoder_decompress (Str (takeWhile (\<lambda>c. c \<noteq> 58) rest)) c
              else Str (takeWhile (\<lambda>c. c \<noteq> 58) rest)) = Inl err3 \<longrightarrow>
        reverse processor (b @ 58 # rest) = None)
   \<and> (58 \<notin> set b \<and> atob b = Inr decoded \<and> JSON_parse decoded = Inr (JObj kvs)
        \<and> obj_get kvs (js ''c'') = c
        \<and> obj_get kvs (js ''e'') = Some v \<and> (\<forall>ys. v \<noteq> JArr ys)
        \<and> length_gt_zero (Some v) = Inr True
        \<and> decode_each (wrapper processor) False [v]
             (if c \<noteq> Some (JStr (js ''none''))
              then Encoder_decompress (Str (takeWhile (\<lambda>c. c \<noteq> 58) rest)) c
              else Str (takeWhile (\<lambda>c. c \<noteq> 58) rest)) = Inl err5 \<longrightarrow>
        reverse processor (b @ 58 # rest) = None)
   \<and> (58 \<notin> set b \<and> atob b = Inr decoded \<and> JSON_parse decoded = Inr (JObj kvs)
        \<and> obj_get kvs (js ''c'') = Some (JStr m) \<and> (m = js ''lz77'' \<or> m = js ''gzip'')
        \<and> obj_get kvs (js ''e'') = Some (JArr [])
        \<and> takeWhile (\<lambda>c. c \<noteq> 58) rest = payload \<and> payload \<noteq> [] \<and> atob payload = Inl err4 \<longrightarrow>
        reverse processor (b @ 58 # rest) = Some (Str payload))
   \<and> (58 \<notin> set b \<and> atob b = Inr decoded \<and> JSON_parse decoded = Inr (JObj kvs)
        \<and> obj_get kvs (js ''c'') = Some (JStr m) \<and> (m = js ''lz77'' \<or> m = js ''gzip'')
        \<and> obj_get kvs (js ''e'') = Some (JArr xs)
        \<and> takeWhile (\<lambda>c. c \<noteq> 58) rest = payload \<and> payload \<noteq> [] \<and> atob payload = Inl err4
        \<and> decode_each (wrapper processor) False (rev xs) (Str payload) = Inl err6 \<longrightarrow>
        reverse processor (b @ 58 # rest) = None)
   \<and> (58 \<notin> set b \<and> atob b = Inr decoded \<and> JSON_parse decoded = Inr (JObj kvs)
        \<and> obj_get kvs (js ''c'') = Some (JStr m) \<and> (m = js ''lz77'' \<or> m = js ''gzip'')
        \<and> obj_get kvs (js ''e'') = Some (JArr xs)
        \<and> takeWhile (\<lambda>c. c \<noteq> 58) rest = payload \<and> payload \<noteq> [] \<and> atob payload = Inl err4 \<longrightarrow>
        reverse (Some p) (b @ 58 # rest)
          = (case decode_each p False (rev xs) (Str payload) of
               Inl e \<Rightarrow> None
             | Inr r \<Rightarrow> Some r))"
proof (intro conjI impI)
  assume "58 \<notin> set input"
  then show "reverse processor input = None" by (simp add: reverse_def)
next
  assume a: "atob (takeWhile (\<lambda>c. c \<noteq> 58) input) = Inl err1"
  show "reverse processor input = None"
  proof (cases "58 \<in> set input")
    case True
    from reverse_body_unfold[OF True, of "wrapper processor"] a show ?thesis
      by (simp add: reverse_def)
  next
    case False
    then show ?thesis by (simp add: reverse_def)
  qed
next
  assume a: "atob (takeWhile (\<lambda>c. c \<noteq> 58) input) = Inr decoded1 \<and> JSON_parse decoded1 = Inl err2"
  show "reverse processor input = None"
  proof (cases "58 \<in> set input")
    case True
    from reverse_body_unfold[OF True, of "wrapper processor"] a show ?thesis
      by (simp add: reverse_def)
  next
    case False
    then show ?thesis by (simp add: reverse_def)
  qed
next
  assume a: "58 \<notin> set b \<and> atob b = Inr decoded \<and> JSON_parse decoded = Inr (JObj kvs)
        \<and> obj_get kvs (js ''c'') = c
        \<and> obj_get kvs (js ''e'') = Some (JArr xs) \<and> xs \<noteq> []
        \<and> decode_each (wrapper processor) False (rev xs)
             (if c \<noteq> Some (JStr (js ''none''))
              then Encoder_decompress (Str (takeWhile (\<lambda>c. c \<noteq> 58) rest)) c
              else Str (takeWhile (\<lambda>c. c \<noteq> 58) rest)) = Inl err3"
  then have "reverse_body (wrapper processor) (b @ 58 # rest) = Inl err3"
    using reverse_body_decode_any[of b decoded kvs c xs "wrapper processor" rest] by simp
  then show "reverse processor (b @ 58 # rest) = None"
    by (simp add: reverse_def)
next
  assume a: "58 \<notin> set b \<and> atob b = Inr decoded \<and> JSON_parse decoded = Inr (JObj kvs)
        \<and> obj_get kvs (js ''c'') = c
        \<and> obj_get kvs (js ''e'') = Some v \<and> (\<forall>ys. v \<noteq> JArr ys)
        \<and> length_gt_zero (Some v) = Inr True
        \<and> decode_each (wrapper processor) False [v]
             (if c \<noteq> Some (JStr (js ''none''))
              then Encoder_decompress (Str (takeWhile (\<lambda>c. c \<noteq> 58) rest)) c
              else Str (takeWhile (\<lambda>c. c \<noteq> 58) rest)) = Inl err5"
  then have "reverse_body (wrapper processor) (b @ 58 # rest) = Inl err5"
    using reverse_body_decode_single[of b decoded kvs c v "wrapper processor" rest] by simp
  then show "reverse processor (b @ 58 # rest) = None"
    by (simp add: reverse_def)
next
  assume a: "58 \<notin> set b \<and> atob b = Inr decoded \<and> JSON_parse decoded = Inr (JObj kvs)
        \<and> obj_get kvs (js ''c'') = Some (JStr m) \<and> (m = js ''lz77'' \<or> m = js ''gzip'')
        \<and> obj_get kvs (js ''e'') = Some (JArr [])
        \<and> takeWhile (\<lambda>c. c \<noteq> 58) rest = payload \<and> payload \<noteq> [] \<and> atob payload = Inl err4"
  then have m: "m = js ''lz77'' \<or> m = js ''gzip''" by simp
  then have c: "Some (JStr m) \<noteq> Some (JStr (js ''none''))" by (auto simp: js_def)
  from a have "reverse_body (wrapper processor) (b @ 58 # rest)
                 = Inr (Encoder_decompress (Str payload) (Some (JStr m)))"
    using reverse_body_decompress[of b decoded kvs "Some (JStr m)" "wrapper processor" rest] c by simp
  moreover from a m have "Encoder_decompress (Str payload) (Some (JStr m)) = Str payload"
    using decompress_returns_input[of payload err4 m] by simp
  ultimately show "reverse processor (b @ 58 # rest) = Some (Str payload)"
    by (simp add: reverse_def)
next
  assume a: "58 \<notin> set b \<and> atob b = Inr decoded \<and> JSON_parse decoded = Inr (JObj kvs)
        \<and> obj_get kvs (js ''c'') = Some (JStr m) \<and> (m = js ''lz77'' \<or> m = js ''gzip'')
        \<and> obj_get kvs (js ''e'') = Some (JArr xs)
        \<and> takeWhile (\<lambda>c. c \<noteq> 58) rest = payload \<and> payload \<noteq> [] \<and> atob payload = Inl err4
        \<and> decode_each (wrapper processor) False (rev xs) (Str payload) = Inl err6"
  then have m: "m = js ''lz77'' \<or> m = js ''gzip''" by simp
  from a have "58 \<notin> set b" "atob b = Inr decoded" "JSON_parse decoded = Inr (JObj kvs)"
    "obj_get kvs (js ''c'') = Some (JStr m)" "obj_get kvs (js ''e'') = Some (JArr xs)"
    "takeWhile (\<lambda>c. c \<noteq> 58) rest = payload" "payload \<noteq> []" "atob payload = Inl err4"
    by simp_all
  from reverse_after_decompression_failed[OF this m, of "wrapper processor"] a
  have "reverse_body (wrapper processor) (b @ 58 # rest) = Inl err6" by simp
  then show "reverse processor (b @ 58 # rest) = None"
    by (simp add: reverse_def)
next
  assume a: "58 \<notin> set b \<and> atob b = Inr decoded \<and> JSON_parse decoded = Inr (JObj kvs)
        \<and> obj_get kvs (js ''c'') = Some (JStr m) \<and> (m = js ''lz77'' \<or> m = js ''gzip'')
        \<and> obj_get kvs (js ''e'') = Some (JArr xs)
        \<and> takeWhile (\<lambda>c. c \<noteq> 58) rest = payload \<and> payload \<noteq> [] \<and> atob payload = Inl err4"
  then have m: "m = js ''lz77'' \<or> m = js ''gzip''" by simp
  from a have "58 \<notin> set b" "atob b = Inr decoded" "JSON_parse decoded = Inr (JObj kvs)"
    "obj_get kvs (js ''c'') = Some (JStr m)" "obj_get kvs (js ''e'') = Some (JArr xs)"
    "takeWhile (\<lambda>c. c \<noteq> 58) rest = payload" "payload \<noteq> []" "atob payload = Inl err4"
    by simp_all
  from reverse_after_decompression_failed[OF this m, of p]
  show "reverse (Some p) (b @ 58 # rest)
          = (case decode_each p False (rev xs) (Str payload) of
               Inl e \<Rightarrow> None
             | Inr r \<Rightarrow> Some r)"
    by (simp add: reverse_def wrapper_def)
qed


theorem reverse_failures_give_null_witness:
  "58 \<notin> set (js ''plain'') \<and> reverse None (js ''plain'') = None
   \<and> atob (takeWhile (\<lambda>c. c \<noteq> 58) (js ''!:x'')) = Inl InvalidCharacterError
   \<and> reverse None (js ''!:x'') = None
   \<and> atob (takeWhile (\<lambda>c. c \<noteq> 58) (js ''YQ==:x'')) = Inr (js ''a'')
   \<and> JSON_parse (js ''a'') = Inl SyntaxError
   \<and> reverse None (js ''YQ==:x'') = None
   \<and> decode_each (wrapper None) False (rev [JStr (js ''base64'')])
         (Str (takeWhile (\<lambda>c. c \<noteq> 58) (js ''!''))) = Inl InvalidCharacterError
   \<and> reverse None (js ''eyJlIjpbImJhc2U2NCJdLCJjIjoibm9uZSIsIm0iOnt9fQ=='' @ 58 # js ''!'') = None
   \<and> Encoder_decompress (Str (js ''!!!'')) (Some (JStr (js ''lz77''))) = Str (js ''!!!'')
   \<and> decode_each (wrapper None) False (rev [JStr (js ''base64'')]) (Str (js ''!!!''))
         = Inl InvalidCharacterError
   \<and> reverse None (js ''eyJlIjpbImJhc2U2NCJdLCJjIjoibHo3NyIsIm0iOnt9fQ=='' @ 58 # js ''!!!'') = None
   \<and> Encoder_decompress (Str (js ''!!!'')) (Some (JStr (js ''gzip''))) = Str (js ''!!!'')
   \<and> length_gt_zero (Some (JStr (js ''base64''))) = Inr True
   \<and> decode_each (wrapper None) False [JStr (js ''base64'')] (Str (js ''!!!''))
         = Inl InvalidCharacterError
   \<and> reverse None (js ''eyJlIjoiYmFzZTY0IiwiYyI6Imd6aXAiLCJtIjp7fX0='' @ 58 # js ''!!!'') = None
   \<and> atob (js ''!!!'') = Inl InvalidCharacterError
   \<and> reverse None (js ''eyJlIjpbXSwiYyI6Imx6NzciLCJtIjp7fX0='' @ 58 # js ''!!!'') = Some (Str (js ''!!!''))
   \<and> atob (js ''6!'') = Inl InvalidCharacterError
   \<and> decode_each (wrapper None) False (rev [JStr (js ''hex'')]) (Str (js ''6!'')) = Inr (Str [6])
   \<and> reverse (Some (wrapper None)) (js ''eyJlIjpbImhleCJdLCJjIjoibHo3NyIsIm0iOnt9fQ=='' @ 58 # js ''6!'')
        = Some (Str [6])"
proof -
  have h1: "58 \<notin> set (js ''plain'')" by (simp add: js_def)
  have h2: "atob (takeWhile (\<lambda>c. c \<noteq> 58) (js ''!:x'')) = Inl InvalidCharacterError"
    by (simp add: b64_defs js_def)
  have h3: "atob (takeWhile (\<lambda>c. c \<noteq> 58) (js ''YQ==:x'')) = Inr (js ''a'')"
    by (simp add: b64_defs js_def)
  have h4: "JSON_parse (js ''a'') = Inl SyntaxError"
    by (simp add: json_defs js_def)
  have h5: "decode_each (wrapper None) False (rev [JStr (js ''base64'')])
         (Str (takeWhile (\<lambda>c. c \<noteq> 58) (js ''!''))) = Inl InvalidCharacterError"
    by (simp add: wrapper_def fallback_decoder_def apply_codec_def base64_decode_def b64_defs js_def)
  have h6: "atob (js ''!!!'') = Inl InvalidCharacterError" by (simp add: b64_defs js_def)
  have h7: "takeWhile (\<lambda>c. c \<noteq> 58) (js ''!!!'') = js ''!!!''" "js ''!!!'' \<noteq> []"
    by (simp_all add: js_def)
  have ne: "[JStr (js ''base64'')] \<noteq> []" by simp
  have nv: "\<forall>ys. JStr (js ''base64'') \<noteq> JArr ys" by simp
  have cl: "Some (JStr (js ''lz77'')) \<noteq> Some (JStr (js ''none''))"
    and cg: "Some (JStr (js ''gzip'')) \<noteq> Some (JStr (js ''none''))"
    by (simp_all add: js_def)
  have dl: "Encoder_decompress (Str (js ''!!!'')) (Some (JStr (js ''lz77''))) = Str (js ''!!!'')"
    by (rule decompress_returns_input[OF h7(2) h6 disjI1[OF refl]])
  have dg: "Encoder_decompress (Str (js ''!!!'')) (Some (JStr (js ''gzip''))) = Str (js ''!!!'')"
    by (rule decompress_returns_input[OF h7(2) h6 disjI2[OF refl]])
  have k1: "decode_each (wrapper None) False [JStr (js ''base64'')] (Str (js ''!!!''))
         = Inl InvalidCharacterError"
    by (simp add: wrapper_def fallback_decoder_def apply_codec_def base64_decode_def h6)
  have k2: "decode_each (wrapper None) False (rev [JStr (js ''base64'')]) (Str (js ''!!!''))
         = Inl InvalidCharacterError"
    using k1 by simp
  have k3: "decode_each (wrapper None) False (rev [JStr (js ''base64'')])
             (if Some (JStr (js ''lz77'')) \<noteq> Some (JStr (js ''none''))
              then Encoder_decompress (Str (takeWhile (\<lambda>c. c \<noteq> 58) (js ''!!!''))) (Some (JStr (js ''lz77'')))
              else Str (takeWhile (\<lambda>c. c \<noteq> 58) (js ''!!!''))) = Inl InvalidCharacterError"
    unfolding h7(1) if_P[OF cl] dl by (rule k2)
  have k4: "decode_each (wrapper None) False [JStr (js ''base64'')]
             (if Some (JStr (js ''gzip'')) \<noteq> Some (JStr (js ''none''))
              then Encoder_decompress (Str (takeWhile (\<lambda>c. c \<noteq> 58) (js ''!!!''))) (Some (JStr (js ''gzip'')))
              else Str (takeWhile (\<lambda>c. c \<noteq> 58) (js ''!!!''))) = Inl InvalidCharacterError"
    unfolding h7(1) if_P[OF cg] dg by (rule k1)
  have lg: "length_gt_zero (Some (JStr (js ''base64''))) = Inr True"
    by (simp add: length_gt_zero_def js_def)
  have h8: "atob (js ''6!'') = Inl InvalidCharacterError" by (simp add: b64_defs js_def)
  have h9: "takeWhile (\<lambda>c. c \<noteq> 58) (js ''6!'') = js ''6!''" "js ''6!'' \<noteq> []"
    by (simp_all add: js_def)
  have k5: "decode_each (wrapper None) False (rev [JStr (js ''hex'')]) (Str (js ''6!'')) = Inr (Str [6])"
    by (simp add: wrapper_def fallback_decoder_def apply_codec_def hex_decode_def parseInt16_def char_of_number_def
          line_terminator_def str_whitespace_def hex_value_def js_def)
  note T1 = reverse_failures_give_null[where processor=None and input="js ''plain''"]
  have c1: "reverse None (js ''plain'') = None"
    by (rule T1[THEN conjunct1, THEN mp, OF h1])
  note T2 = reverse_failures_give_null[where processor=None and input="js ''!:x''"
      and ?err1.0=InvalidCharacterError]
  have c2: "reverse None (js ''!:x'') = None"
    by (rule T2[THEN conjunct2, THEN conjunct1, THEN mp, OF h2])
  note T3 = reverse_failures_give_null[where processor=None and input="js ''YQ==:x''"
      and ?decoded1.0="js ''a''" and ?err2.0=SyntaxError]
  have c3: "reverse None (js ''YQ==:x'') = None"
    by (rule T3[THEN conjunct2, THEN conjunct2, THEN conjunct1, THEN mp, OF conjI[OF h3 h4]])
  note T4 = reverse_failures_give_null[where processor=None
      and b="js ''eyJlIjpbImJhc2U2NCJdLCJjIjoibm9uZSIsIm0iOnt9fQ==''"
      and decoded="js ''{\"e\":[\"base64\"],\"c\":\"none\",\"m\":{}}''"
      and kvs="[(js ''e'', JArr [JStr (js ''base64'')]), (js ''c'', JStr (js ''none'')), (js ''m'', JObj [])]"
      and c="Some (JStr (js ''none''))"
      and xs="[JStr (js ''base64'')]" and rest="js ''!''" and ?err3.0=InvalidCharacterError]
  have h5': "decode_each (wrapper None) False (rev [JStr (js ''base64'')])
             (if Some (JStr (js ''none'')) \<noteq> Some (JStr (js ''none''))
              then Encoder_decompress (Str (takeWhile (\<lambda>c. c \<noteq> 58) (js ''!''))) (Some (JStr (js ''none'')))
              else Str (takeWhile (\<lambda>c. c \<noteq> 58) (js ''!''))) = Inl InvalidCharacterError"
    using h5 by simp
  have c4: "reverse None (js ''eyJlIjpbImJhc2U2NCJdLCJjIjoibm9uZSIsIm0iOnt9fQ=='' @ 58 # js ''!'') = None"
    by (rule T4[THEN conjunct2, THEN conjunct2, THEN conjunct2, THEN conjunct1, THEN mp])
       (intro conjI no_colon_in_cfg(3) atob_cfg_base64 parse_cfg_base64 obj_get_cfg h5' ne)
  note T4b = reverse_failures_give_null[where processor=None
      and b="js ''eyJlIjpbImJhc2U2NCJdLCJjIjoibHo3NyIsIm0iOnt9fQ==''"
      and decoded="js ''{\"e\":[\"base64\"],\"c\":\"lz77\",\"m\":{}}''"
      and kvs="[(js ''e'', JArr [JStr (js ''base64'')]), (js ''c'', JStr (js ''lz77'')), (js ''m'', JObj [])]"
      and c="Some (JStr (js ''lz77''))"
      and xs="[JStr (js ''base64'')]" and rest="js ''!!!''" and ?err3.0=InvalidCharacterError]
  have c4b: "reverse None (js ''eyJlIjpbImJhc2U2NCJdLCJjIjoibHo3NyIsIm0iOnt9fQ=='' @ 58 # js ''!!!'') = None"
    by (rule T4b[THEN conjunct2, THEN conjunct2, THEN conjunct2, THEN conjunct1, THEN mp])
       (intro conjI no_colon_in_cfg2(1) atob_cfg_base64_lz77 parse_cfg_base64_lz77 obj_get_cfg k3 ne)
  note T5 = reverse_failures_give_null[where processor=None
      and b="js ''eyJlIjoiYmFzZTY0IiwiYyI6Imd6aXAiLCJtIjp7fX0=''"
      and decoded="js ''{\"e\":\"base64\",\"c\":\"gzip\",\"m\":{}}''"
      and kvs="[(js ''e'', JStr (js ''base64'')), (js ''c'', JStr (js ''gzip'')), (js ''m'', JObj [])]"
      and c="Some (JStr (js ''gzip''))"
      and v="JStr (js ''base64'')" and rest="js ''!!!''" and ?err5.0=InvalidCharacterError]
  have c5: "reverse None (js ''eyJlIjoiYmFzZTY0IiwiYyI6Imd6aXAiLCJtIjp7fX0='' @ 58 # js ''!!!'') = None"
    by (rule T5[THEN conjunct2, THEN conjunct2, THEN conjunct2, THEN conjunct2, THEN conjunct1, THEN mp])
       (intro conjI no_colon_in_cfg2(2) atob_cfg_single_gzip parse_cfg_single_gzip obj_get_cfg nv lg k4)
  note T6 = reverse_failures_give_null[where processor=None
      and b="js ''eyJlIjpbXSwiYyI6Imx6NzciLCJtIjp7fX0=''"
      and decoded="js ''{\"e\":[],\"c\":\"lz77\",\"m\":{}}''"
      and kvs="[(js ''e'', JArr []), (js ''c'', JStr (js ''lz77'')), (js ''m'', JObj [])]"
      and m="js ''lz77''" and rest="js ''!!!''" and payload="js ''!!!''" and ?err4.0=InvalidCharacterError]
  have c6: "reverse None (js ''eyJlIjpbXSwiYyI6Imx6NzciLCJtIjp7fX0='' @ 58 # js ''!!!'') = Some (Str (js ''!!!''))"
    by (rule T6[THEN conjunct2, THEN conjunct2, THEN conjunct2, THEN conjunct2, THEN conjunct2,
                THEN conjunct1, THEN mp])
       (intro conjI disjI1 no_colon_in_cfg(2) atob_cfg_lz77 parse_cfg_lz77 obj_get_cfg h6 h7 refl)
  note T7 = reverse_failures_give_null[where processor=None
      and b="js ''eyJlIjpbImJhc2U2NCJdLCJjIjoibHo3NyIsIm0iOnt9fQ==''"
      and decoded="js ''{\"e\":[\"base64\"],\"c\":\"lz77\",\"m\":{}}''"
      and kvs="[(js ''e'', JArr [JStr (js ''base64'')]), (js ''c'', JStr (js ''lz77'')), (js ''m'', JObj [])]"
      and m="js ''lz77''" and xs="[JStr (js ''base64'')]" and rest="js ''!!!''"
      and payload="js ''!!!''" and ?err4.0=InvalidCharacterError and ?err6.0=InvalidCharacterError]
  have c7: "reverse None (js ''eyJlIjpbImJhc2U2NCJdLCJjIjoibHo3NyIsIm0iOnt9fQ=='' @ 58 # js ''!!!'') = None"
    by (rule T7[THEN conjunct2, THEN conjunct2, THEN conjunct2, THEN conjunct2, THEN conjunct2,
                THEN conjunct2, THEN conjunct1, THEN mp])
       (intro conjI disjI1 no_colon_in_cfg2(1) atob_cfg_base64_lz77 parse_cfg_base64_lz77 obj_get_cfg
          h6 h7 k2 refl)
  note T8 = reverse_failures_give_null[where p="wrapper None"
      and b="js ''eyJlIjpbImhleCJdLCJjIjoibHo3NyIsIm0iOnt9fQ==''"
      and decoded="js ''{\"e\":[\"hex\"],\"c\":\"lz77\",\"m\":{}}''"
      and kvs="[(js ''e'', JArr [JStr (js ''hex'')]), (js ''c'', JStr (js ''lz77'')), (js ''m'', JObj [])]"
      and m="js ''lz77''" and xs="[JStr (js ''hex'')]" and rest="js ''6!''"
      and payload="js ''6!''" and ?err4.0=InvalidCharacterError]
  have "reverse (Some (wrapper None)) (js ''eyJlIjpbImhleCJdLCJjIjoibHo3NyIsIm0iOnt9fQ=='' @ 58 # js ''6!'')
        = (case decode_each (wrapper None) False (rev [JStr (js ''hex'')]) (Str (js ''6!'')) of
             Inl e \<Rightarrow> None | Inr r \<Rightarrow> Some r)"
    by (rule T8[THEN conjunct2, THEN conjunct2, THEN conjunct2, THEN conjunct2, THEN conjunct2,
                THEN conjunct2, THEN conjunct2, THEN mp])
       (intro conjI disjI1 no_colon_in_cfg2(3) atob_cfg_hex_lz77 parse_cfg_hex_lz77 obj_get_cfg
          h8 h9 refl)
  then have c8: "reverse (Some (wrapper None)) (js ''eyJlIjpbImhleCJdLCJjIjoibHo3NyIsIm0iOnt9fQ=='' @ 58 # js ''6!'')
        = Some (Str [6])"
    unfolding k5 by simp
  show ?thesis
    by (intro conjI h1 h2 h3 h4 h5 h6 h8 c1 c2 c3 c4 c4b c5 c6 c8 dl dg k1 k2 k5 lg)
qed

text \<open>
  Claim C1 says that \<open>reverse(process(s)) = s\<close> for every reversible pipeline. For the
  pipeline without encoders and without compression the code returns the input only up
  to its first delimiter \<open>:\<close>, because \<open>reverse\<close> keeps the piece between the first
  and the second delimiter of the envelope. This holds for every external processor
  whose base64 encoding of the configuration is free of delimiters and is decoded by
  \<open>atob\<close>; so \<open>a:b\<close> comes back as \<open>a\<close>.
\<close>

theorem reverse_of_process_keeps_first_piece:
  assumes "encode_fn ext (Str (stringify (config_of (pipeline [] (js ''none''))))) (JStr (js ''base64''))
             = Inr (Str b)"
    and "atob b = Inr (stringify (config_of (pipeline [] (js ''none''))))"
    and "58 \<notin> set b"
  shows "process ext (pipeline [] (js ''none'')) s = Inr (Str (b @ 58 # s))
       \<and> reverse processor (b @ 58 # s) = Some (Str (takeWhile (\<lambda>c. c \<noteq> 58) s))"
proof -
  have p: "process ext (pipeline [] (js ''none'')) s = Inr (Str (b @ 58 # s))"
    using assms(1) by (simp add: process_def pipeline_def to_text_def)
  from assms(2) have a: "atob b = Inr (js ''{\"e\":[],\"c\":\"none\",\"m\":{}}'')"
    by (simp add: stringify_cfg_none)
  from reverse_body_plain[OF assms(3) a parse_cfg_none obj_get_cfg, of "wrapper processor" s]
  have "reverse processor (b @ 58 # s) = Some (Str (takeWhile (\<lambda>c. c \<noteq> 58) s))"
    by (simp add: reverse_def)
  with p show ?thesis by simp
qed

theorem reverse_of_process_keeps_first_piece_witness:
  "encode_fn (wrapper None) (Str (stringify (config_of (pipeline [] (js ''none''))))) (JStr (js ''base64''))
     = Inr (Str (js ''eyJlIjpbXSwiYyI6Im5vbmUiLCJtIjp7fX0=''))
   \<and> atob (js ''eyJlIjpbXSwiYyI6Im5vbmUiLCJtIjp7fX0='')
       = Inr (stringify (config_of (pipeline [] (js ''none''))))
   \<and> 58 \<notin> set (js ''eyJlIjpbXSwiYyI6Im5vbmUiLCJtIjp7fX0='')
   \<and> process (wrapper None) (pipeline [] (js ''none'')) (js ''a:b'')
       = Inr (Str (js ''eyJlIjpbXSwiYyI6Im5vbmUiLCJtIjp7fX0=:a:b''))
   \<and> reverse None (js ''eyJlIjpbXSwiYyI6Im5vbmUiLCJtIjp7fX0=:a:b'') = Some (Str (js ''a''))
   \<and> Some (Str (js ''a'')) \<noteq> Some (Str (js ''a:b''))"
proof -
  have e: "encode_fn (wrapper None) (Str (stringify (config_of (pipeline [] (js ''none''))))) (JStr (js ''base64''))
     = Inr (Str (js ''eyJlIjpbXSwiYyI6Im5vbmUiLCJtIjp7fX0=''))"
    unfolding stringify_cfg_none
    by (simp add: wrapper_def fallback_encoder_def apply_codec_def base64_encode_def b64_defs js_def)
  have a: "atob (js ''eyJlIjpbXSwiYyI6Im5vbmUiLCJtIjp7fX0='')
       = Inr (stringify (config_of (pipeline [] (js ''none''))))"
    by (simp add: atob_cfg_none stringify_cfg_none)
  have env: "js ''eyJlIjpbXSwiYyI6Im5vbmUiLCJtIjp7fX0=:a:b''
               = js ''eyJlIjpbXSwiYyI6Im5vbmUiLCJtIjp7fX0='' @ 58 # js ''a:b''"
    by (simp add: js_def)
  have tw: "takeWhile (\<lambda>c. c \<noteq> 58) (js ''a:b'') = js ''a''" by (simp add: js_def)
  have ne: "Some (Str (js ''a'')) \<noteq> Some (Str (js ''a:b''))" by (simp add: js_def)
  from reverse_of_process_keeps_first_piece[OF e a no_colon_in_cfg(1), of "js ''a:b''" None]
  have "process (wrapper None) (pipeline [] (js ''none'')) (js ''a:b'')
       = Inr (Str (js ''eyJlIjpbXSwiYyI6Im5vbmUiLCJtIjp7fX0=:a:b''))
   \<and> reverse None (js ''eyJlIjpbXSwiYyI6Im5vbmUiLCJtIjp7fX0=:a:b'') = Some (Str (js ''a''))"
    by (simp add: env tw)
  then show ?thesis
    by (intro conjI e a no_colon_in_cfg(1) ne) simp_all
qed

section \<open>Verified properties: base64 and the sequence-match compression\<close>

lemma b64_value_char: "i < 64 \<Longrightarrow> b64_value (b64_char i) = Some i"
  by (auto simp: b64_value_def b64_char_def)

lemma b64_char_plain: "i < 64 \<Longrightarrow> \<not> ascii_whitespace (b64_char i) \<and> b64_char i \<noteq> 61"
  by (auto simp: ascii_whitespace_def b64_char_def)

lemma ascii_whitespace_pad: "\<not> ascii_whitespace 61"
  by (simp add: ascii_whitespace_def)

lemma b64_encode_length: "length (b64_encode bs) mod 4 = 0"
  by (induction bs rule: b64_encode.induct) simp_all

lemma b64_encode_Nil: "b64_encode bs = [] \<longleftrightarrow> bs = []"
  by (induction bs rule: b64_encode.induct) simp_all

lemma strip_padding_append:
  assumes "length t mod 4 = 0" and "t \<noteq> []"
  shows "strip_padding ([w, x, y, z] @ t) = [w, x, y, z] @ strip_padding t"
proof -
  from assms have "length t \<noteq> 0" by simp
  with assms(1) have len: "4 \<le> length t" by presburger
  then have b: "butlast t \<noteq> []"
    by (cases t rule: rev_cases) auto
  have m: "length ([w, x, y, z] @ t) mod 4 = 0" using assms(1) by simp
  have l: "last ([w, x, y, z] @ t) = last t" using assms(2) by simp
  have bl: "butlast ([w, x, y, z] @ t) = [w, x, y, z] @ butlast t"
    using assms(2) by (simp add: butlast_append)
  have lb: "last ([w, x, y, z] @ butlast t) = last (butlast t)" using b by simp
  have bb: "butlast ([w, x, y, z] @ butlast t) = [w, x, y, z] @ butlast (butlast t)"
    using b by (simp add: butlast_append)
  show ?thesis
  proof (cases "last t = 61")
    case False
    then show ?thesis
      unfolding strip_padding_def[of "[w, x, y, z] @ t"] strip_padding_def[of t] l
      by simp
  next
    case True
    show ?thesis
    proof (cases "last (butlast t) = 61")
      case True
      with \<open>last t = 61\<close> assms b show ?thesis
        unfolding strip_padding_def[of "[w, x, y, z] @ t"] strip_padding_def[of t] m l bl lb bb
        by simp
    next
      case False
      with \<open>last t = 61\<close> assms b show ?thesis
        unfolding strip_padding_def[of "[w, x, y, z] @ t"] strip_padding_def[of t] m l bl lb bb
        by simp
    qed
  qed
qed


lemma div_mod_pack:
  fixes x y k :: nat
  assumes "y < k"
  shows "(x * k + y) div k = x" and "(x * k + y) mod k = y"
  using assms by simp_all

lemma sextet_bounds:
  fixes a b c :: nat
  assumes "a < 256" and "b < 256" and "c < 256"
  shows "a div 4 < 64" and "a mod 4 * 16 + b div 16 < 64" and "b mod 16 * 4 + c div 64 < 64"
    and "c mod 64 < 64" and "a mod 4 * 16 < 64" and "b mod 16 * 4 < 64"
proof -
  define a1 a0 b1 b0 c1 where "a1 = a div 4" and "a0 = a mod 4" and "b1 = b div 16"
    and "b0 = b mod 16" and "c1 = c div 64"
  have "a1 < 64" unfolding a1_def using assms(1) by (intro less_mult_imp_div_less) simp
  moreover have "a0 < 4" unfolding a0_def by simp
  moreover have "b1 < 16" unfolding b1_def using assms(2) by (intro less_mult_imp_div_less) simp
  moreover have "b0 < 16" unfolding b0_def by simp
  moreover have "c1 < 4" unfolding c1_def using assms(3) by (intro less_mult_imp_div_less) simp
  ultimately have "a1 < 64 \<and> a0 * 16 + b1 < 64 \<and> b0 * 4 + c1 < 64 \<and> a0 * 16 < 64 \<and> b0 * 4 < 64"
    by linarith
  then show "a div 4 < 64" and "a mod 4 * 16 + b div 16 < 64" and "b mod 16 * 4 + c div 64 < 64"
    and "a mod 4 * 16 < 64" and "b mod 16 * 4 < 64"
    unfolding a1_def a0_def b1_def b0_def c1_def by simp_all
  show "c mod 64 < 64" by simp
qed

lemma sextet_unpack:
  fixes a b c :: nat
  assumes "b < 256" and "c < 256"
  shows "a div 4 * 4 + (a mod 4 * 16 + b div 16) div 16 = a"
    and "(a mod 4 * 16 + b div 16) mod 16 * 16 + (b mod 16 * 4 + c div 64) div 4 = b"
    and "(b mod 16 * 4 + c div 64) mod 4 * 64 + c mod 64 = c"
    and "a div 4 * 4 + a mod 4 * 16 div 16 = a"
    and "(a mod 4 * 16 + b div 16) mod 16 * 16 + b mod 16 * 4 div 4 = b"
    and "b div 16 div 16 = 0" and "b div 16 mod 16 = b div 16"
    and "c div 64 div 4 = 0" and "c div 64 mod 4 = c div 64"
proof -
  have b1: "b div 16 < 16" using assms(1) by (intro less_mult_imp_div_less) simp
  have c1: "c div 64 < 4" using assms(2) by (intro less_mult_imp_div_less) simp
  show "a div 4 * 4 + (a mod 4 * 16 + b div 16) div 16 = a"
    unfolding div_mod_pack(1)[OF b1] by simp
  show "(a mod 4 * 16 + b div 16) mod 16 * 16 + (b mod 16 * 4 + c div 64) div 4 = b"
    unfolding div_mod_pack(2)[OF b1] div_mod_pack(1)[OF c1] by simp
  show "(b mod 16 * 4 + c div 64) mod 4 * 64 + c mod 64 = c"
    unfolding div_mod_pack(2)[OF c1] by simp
  show "a div 4 * 4 + a mod 4 * 16 div 16 = a" by simp
  show "(a mod 4 * 16 + b div 16) mod 16 * 16 + b mod 16 * 4 div 4 = b"
    unfolding div_mod_pack(2)[OF b1] by simp
  show "b div 16 div 16 = 0" and "b div 16 mod 16 = b div 16" using b1 by simp_all
  show "c div 64 div 4 = 0" and "c div 64 mod 4 = c div 64" using c1 by simp_all
qed

lemma b64_encode_no_whitespace:
  "\<forall>c \<in> set bs. c < 256 \<Longrightarrow> filter (\<lambda>c. \<not> ascii_whitespace c) (b64_encode bs) = b64_encode bs"
proof (induction bs rule: b64_encode.induct)
  case 1
  then show ?case by simp
next
  case (2 a)
  then have a: "a < 256" by simp
  show ?case by (simp add: b64_char_plain ascii_whitespace_pad sextet_bounds[OF a a a])
next
  case (3 a b)
  then have a: "a < 256" and b: "b < 256" by simp_all
  show ?case by (simp add: b64_char_plain ascii_whitespace_pad sextet_bounds[OF a b b])
next
  case (4 a b c rest)
  then have a: "a < 256" and b: "b < 256" and c: "c < 256" by simp_all
  from 4 show ?case by (simp add: b64_char_plain sextet_bounds[OF a b c])
qed

lemma b64_decode_encode:
  assumes "\<forall>c \<in> set bs. c < 256"
  shows "length (strip_padding (b64_encode bs)) mod 4 \<noteq> 1
       \<and> (\<forall>c \<in> set (strip_padding (b64_encode bs)). b64_value c \<noteq> None)
       \<and> b64_decode (map (\<lambda>c. the (b64_value c)) (strip_padding (b64_encode bs))) = bs"
  using assms
proof (induction bs rule: b64_encode.induct)
  case 1
  then show ?case by (simp add: strip_padding_def)
next
  case (2 a)
  then have a: "a < 256" by simp
  note v = sextet_bounds[OF a a a]
  note ar = sextet_unpack[OF a a]
  show ?case
    by (simp add: strip_padding_def b64_value_char v b64_char_plain ar)
next
  case (3 a b)
  then have a: "a < 256" and b: "b < 256" by simp_all
  note v = sextet_bounds[OF a b b]
  note ar = sextet_unpack[OF b b]
  show ?case
    by (simp add: strip_padding_def b64_value_char v b64_char_plain ar)
next
  case (4 a b c rest)
  then have a: "a < 256" and b: "b < 256" and c: "c < 256" by simp_all
  note v = sextet_bounds[OF a b c]
  note ar = sextet_unpack[OF b c]
  let ?q = "[b64_char (a div 4), b64_char (a mod 4 * 16 + b div 16),
            b64_char (b mod 16 * 4 + c div 64), b64_char (c mod 64)]"
  show ?case
  proof (cases "rest = []")
    case True
    show ?thesis
      unfolding True by (simp add: strip_padding_def b64_value_char v b64_char_plain ar)
  next
    case False
    then have ne: "b64_encode rest \<noteq> []" by (simp add: b64_encode_Nil)
    have s: "strip_padding (b64_encode (a # b # c # rest)) = ?q @ strip_padding (b64_encode rest)"
      using strip_padding_append[OF b64_encode_length ne] by simp
    from 4 have ih: "length (strip_padding (b64_encode rest)) mod 4 \<noteq> 1"
       "\<forall>c \<in> set (strip_padding (b64_encode rest)). b64_value c \<noteq> None"
       "b64_decode (map (\<lambda>c. the (b64_value c)) (strip_padding (b64_encode rest))) = rest"
      by simp_all
    have l: "length (?q @ strip_padding (b64_encode rest)) mod 4
               = length (strip_padding (b64_encode rest)) mod 4"
      by simp
    show ?thesis
      unfolding s l using ih by (simp add: b64_value_char v ar)
  qed
qed

text \<open>\<open>atob\<close> decodes what \<open>btoa\<close> encodes, for every string of code units up to 255.\<close>

lemma atob_btoa:
  assumes "\<forall>c \<in> set bs. c < 256"
  shows "btoa bs = Inr (b64_encode bs) \<and> atob (b64_encode bs) = Inr bs"
proof -
  from assms have "\<not> (\<exists>c \<in> set bs. 255 < c)" by auto
  then have b: "btoa bs = Inr (b64_encode bs)" by (simp add: btoa_def)
  from b64_decode_encode[OF assms] b64_encode_no_whitespace[OF assms]
  have "atob (b64_encode bs) = Inr bs"
    by (simp add: atob_def Let_def)
  with b show ?thesis by simp
qed

lemma match_length_props:
  assumes "l0 \<le> 255" and "i + l0 \<le> length input"
  shows "l0 \<le> match_length input i off l0 \<and> match_length input i off l0 \<le> 255
       \<and> i + match_length input i off l0 \<le> length input
       \<and> (\<forall>k. l0 \<le> k \<and> k < match_length input i off l0 \<longrightarrow>
              input ! (i - off + k) = input ! (i + k))"
  using assms
proof (induction input i off l0 rule: match_length.induct)
  case (1 input i offset len)
  show ?case
  proof (cases "i + len < length input \<and> input ! (i - offset + len) = input ! (i + len) \<and> len < 255")
    case True
    then have e: "match_length input i offset len = match_length input i offset (Suc len)"
      by (simp add: match_length.simps[of input i offset len])
    from True have "Suc len \<le> 255" "i + Suc len \<le> length input" by simp_all
    from "1.IH"[OF True this]
    have ih: "Suc len \<le> match_length input i offset (Suc len)"
      "match_length input i offset (Suc len) \<le> 255"
      "i + match_length input i offset (Suc len) \<le> length input"
      "\<And>k. Suc len \<le> k \<Longrightarrow> k < match_length input i offset (Suc len) \<Longrightarrow>
            input ! (i - offset + k) = input ! (i + k)"
      by simp_all
    have "input ! (i - offset + k) = input ! (i + k)"
      if "len \<le> k" and "k < match_length input i offset (Suc len)" for k
    proof (cases "k = len")
      case True
      with \<open>i + len < length input \<and> input ! (i - offset + len) = input ! (i + len) \<and> len < 255\<close>
      show ?thesis by simp
    next
      case False
      with that have "Suc len \<le> k" by simp
      from ih(4)[OF this that(2)] show ?thesis .
    qed
    with ih(1,2,3) show ?thesis
      unfolding e by simp
  next
    case False
    then have e: "match_length input i offset len = len"
      by (subst match_length.simps) (simp only: if_False)
    from "1.prems" show ?thesis unfolding e by simp
  qed
qed

lemma find_match_props:
  "find_match input i offsets best = (L, off) \<Longrightarrow>
   (L, off) = best \<or> (off \<in> set offsets \<and> L = match_length input i off 0 \<and> fst best < L)"
proof (induction offsets arbitrary: best)
  case Nil
  then show ?case by simp
next
  case (Cons offset offsets)
  obtain maxLength maxOffset where b: "best = (maxLength, maxOffset)" by (cases best)
  show ?case
  proof (cases "maxLength < match_length input i offset 0")
    case True
    with Cons.prems b
    have "find_match input i offsets (match_length input i offset 0, offset) = (L, off)"
      by (simp add: Let_def)
    from Cons.IH[OF this] True b show ?thesis by auto
  next
    case False
    with Cons.prems b have "find_match input i offsets best = (L, off)"
      by (simp add: Let_def)
    from Cons.IH[OF this] show ?thesis by auto
  qed
qed

lemma longest_match_props:
  assumes "longest_match input i = (L, off)" and "4 \<le> L" and "i \<le> length input"
  shows "1 \<le> off" and "off \<le> i" and "off \<le> 255" and "L \<le> 255" and "i + L \<le> length input"
    and "\<forall>k < L. input ! (i - off + k) = input ! (i + k)"
proof -
  from find_match_props[OF assms(1)[unfolded longest_match_def]] assms(2)
  have o: "off \<in> set [1 ..< Suc (min i 255)]" and l: "L = match_length input i off 0"
    by auto
  from o show "1 \<le> off" and "off \<le> i" and "off \<le> 255" by auto
  from match_length_props[of 0 i input off] assms(3) l
  show "L \<le> 255" and "i + L \<le> length input"
    and "\<forall>k < L. input ! (i - off + k) = input ! (i + k)" by auto
qed

lemma lz77_copy_take:
  assumes "1 \<le> off" and "off \<le> i" and "i + L \<le> length input"
    and "\<forall>k < L. input ! (i - off + k) = input ! (i + k)"
  shows "j + n \<le> L \<Longrightarrow>
         lz77_copy (int i - int off) j n (take (i + j) input) = take (i + j + n) input"
proof (induction n arbitrary: j)
  case 0
  then show ?case by simp
next
  case (Suc n)
  from Suc.prems have jL: "j < L" by simp
  with assms(3) have lt: "i + j < length input" by simp
  have idx: "int i - int off + int j = int (i - off + j)" using assms(2) by simp
  have "i - off + j < i + j" using assms(1,2) by simp
  with lt have c: "char_at (take (i + j) input) (int i - int off + int j) = [input ! (i - off + j)]"
    unfolding idx char_at_def by (simp del: of_nat_add)
  from assms(4) jL have m: "input ! (i - off + j) = input ! (i + j)" by simp
  have t: "take (i + j) input @ [input ! (i + j)] = take (i + Suc j) input"
    using lt by (simp add: take_Suc_conv_app_nth)
  from Suc.prems have "Suc j + n \<le> L" by simp
  from Suc.IH[OF this] show ?case
    by (simp add: c m t)
qed

lemma lz77_compress_acc:
  "lz77_compress input i acc = acc @ lz77_compress input i []"
proof (induction "length input - i" arbitrary: i acc rule: less_induct)
  case less
  show ?case
  proof (cases "i < length input")
    case False
    then show ?thesis by (simp add: lz77_compress.simps[of input i])
  next
    case True
    obtain L off where lm: "longest_match input i = (L, off)" by (cases "longest_match input i")
    show ?thesis
    proof (cases "4 \<le> L")
      case True
      with \<open>i < length input\<close> have d: "length input - (i + L) < length input - i" by simp
      from less[OF d, of "acc @ [0xff, off, L]"] less[OF d, of "[0xff, off, L]"]
      show ?thesis
        using True \<open>i < length input\<close> lm
        by (simp add: lz77_compress.simps[of input i])
    next
      case False
      from \<open>i < length input\<close> have d: "length input - Suc i < length input - i" by simp
      from less[OF d, of "acc @ [0xff, 0]"] less[OF d, of "[0xff, 0]"]
        less[OF d, of "acc @ [input ! i]"] less[OF d, of "[input ! i]"]
      show ?thesis
        using False \<open>i < length input\<close> lm
        by (simp add: lz77_compress.simps[of input i])
    qed
  qed
qed

lemma lz77_compress_bytes:
  assumes "\<forall>c \<in> set input. c < 256"
  shows "\<forall>c \<in> set (lz77_compress input i []). c < 256"
proof (induction "length input - i" arbitrary: i rule: less_induct)
  case less
  show ?case
  proof (cases "i < length input")
    case False
    then show ?thesis by (simp add: lz77_compress.simps[of input i])
  next
    case True
    obtain L off where lm: "longest_match input i = (L, off)" by (cases "longest_match input i")
    show ?thesis
    proof (cases "4 \<le> L")
      case True
      with \<open>i < length input\<close> have d: "length input - (i + L) < length input - i" by simp
      from \<open>i < length input\<close> have "i \<le> length input" by simp
      from longest_match_props(3,4)[OF lm True this]
      have "off \<le> 255" "L \<le> 255" by simp_all
      with less[OF d] lz77_compress_acc[of input "i + L" "[0xff, off, L]"]
      show ?thesis
        using True \<open>i < length input\<close> lm
        by (simp add: lz77_compress.simps[of input i "[]"])
    next
      case False
      from \<open>i < length input\<close> have d: "length input - Suc i < length input - i" by simp
      from assms \<open>i < length input\<close> have "input ! i < 256" by simp
      with less[OF d] lz77_compress_acc[of input "Suc i" "[0xff, 0]"]
        lz77_compress_acc[of input "Suc i" "[input ! i]"]
      show ?thesis
        using False \<open>i < length input\<close> lm
        by (simp add: lz77_compress.simps[of input i "[]"])
    qed
  qed
qed

lemma lz77_decompress_compress:
  "i \<le> length input \<Longrightarrow>
   lz77_decompress (pre @ lz77_compress input i []) (length pre) (take i input) = input"
proof (induction "length input - i" arbitrary: i pre rule: less_induct)
  case less
  show ?case
  proof (cases "i < length input")
    case False
    with less.prems have "i = length input" by simp
    then show ?thesis
      by (simp add: lz77_compress.simps[of input "length input"]
          lz77_decompress.simps[of pre "length pre"])
  next
    case True
    obtain L off where lm: "longest_match input i = (L, off)" by (cases "longest_match input i")
    show ?thesis
    proof (cases "4 \<le> L")
      case True
      note p = longest_match_props[OF lm True less.prems]
      note le = p(5)
      have d: "length input - (i + L) < length input - i"
        using True \<open>i < length input\<close> by linarith
      let ?rest = "lz77_compress input (i + L) []"
      have c: "lz77_compress input i [] = [0xff, off, L] @ ?rest"
        using True \<open>i < length input\<close> lm lz77_compress_acc[of input "i + L" "[0xff, off, L]"]
        by (simp add: lz77_compress.simps[of input i "[]"])
      define comp where "comp = pre @ [0xff, off, L] @ ?rest"
      have n0: "comp ! length pre = 0xff" and n1: "comp ! Suc (length pre) = off"
        and n2: "comp ! Suc (Suc (length pre)) = L" and nl: "Suc (Suc (length pre)) < length comp"
        and ce: "comp = (pre @ [0xff, off, L]) @ ?rest"
        and cl: "length pre + 3 = length (pre @ [0xff, off, L])"
        unfolding comp_def by (simp_all add: nth_append)
      have li: "min (length input) i = i" using less.prems by simp
      have cp: "lz77_copy (int i - int off) 0 L (take i input) = take (i + L) input"
        using lz77_copy_take[OF p(1) p(2) p(5) p(6), of 0 L] by simp
      have "lz77_decompress comp (length pre) (take i input)
              = lz77_decompress comp (length pre + 3) (take (i + L) input)"
        using p(1) nl by (subst lz77_decompress.simps) (simp add: n0 n1 n2 cp li)
      also have "\<dots> = input"
        unfolding ce cl by (rule less(1)[OF d le])
      finally show ?thesis unfolding c comp_def .
    next
      case False
      from \<open>i < length input\<close> have d: "length input - Suc i < length input - i"
        and le: "Suc i \<le> length input" by simp_all
      let ?rest = "lz77_compress input (Suc i) []"
      have t: "take i input @ [input ! i] = take (Suc i) input"
        using \<open>i < length input\<close> by (simp add: take_Suc_conv_app_nth)
      show ?thesis
      proof (cases "input ! i = 0xff")
        case True
        have c: "lz77_compress input i [] = [0xff, 0] @ ?rest"
          using True False \<open>i < length input\<close> lm lz77_compress_acc[of input "Suc i" "[0xff, 0]"]
          by (simp add: lz77_compress.simps[of input i "[]"])
        define comp where "comp = pre @ [0xff, 0] @ ?rest"
        have n0: "comp ! length pre = 0xff" and n1: "comp ! Suc (length pre) = 0"
          and nl: "Suc (length pre) < length comp"
          and ce: "comp = (pre @ [0xff, 0]) @ ?rest"
          and cl: "length pre + 2 = length (pre @ [0xff, 0])"
          unfolding comp_def by (simp_all add: nth_append)
        have "lz77_decompress comp (length pre) (take i input)
                = lz77_decompress comp (length pre + 2) (take (Suc i) input)"
          using t True nl by (subst lz77_decompress.simps) (simp add: n0 n1)
        also have "\<dots> = input"
          unfolding ce cl by (rule less(1)[OF d le])
        finally show ?thesis unfolding c comp_def .
      next
        case lit: False
        have c: "lz77_compress input i [] = [input ! i] @ ?rest"
          using lit False \<open>i < length input\<close> lm lz77_compress_acc[of input "Suc i" "[input ! i]"]
          by (simp add: lz77_compress.simps[of input i "[]"])
        define comp where "comp = pre @ [input ! i] @ ?rest"
        have n0: "comp ! length pre = input ! i"
          and nl: "length pre < length comp"
          and ce: "comp = (pre @ [input ! i]) @ ?rest"
          and cl: "Suc (length pre) = length (pre @ [input ! i])"
          unfolding comp_def by (simp_all add: nth_append)
        have "lz77_decompress comp (length pre) (take i input)
                = lz77_decompress comp (Suc (length pre)) (take (Suc i) input)"
          using t lit nl by (subst lz77_decompress.simps) (simp add: n0)
        also have "\<dots> = input"
          unfolding ce cl by (rule less(1)[OF d le])
        finally show ?thesis unfolding c comp_def .
      qed
    qed
  qed
qed

lemma lz77_compress_nonempty:
  assumes "input \<noteq> []"
  shows "lz77_compress input 0 [] \<noteq> []"
proof -
  obtain L off where lm: "longest_match input 0 = (L, off)" by (cases "longest_match input 0")
  from assms have "0 < length input" by simp
  then show ?thesis
    using lm lz77_compress_acc[of input L "[0xff, off, L]"]
      lz77_compress_acc[of input "Suc 0" "[0xff, 0]"]
      lz77_compress_acc[of input "Suc 0" "[input ! 0]"]
    by (simp add: lz77_compress.simps[of input 0 "[]"])
qed

text \<open>
  The sequence-match mode is lossless: for every non-empty string of code units up to 255,
  \<open>compress\<close> returns a string from which \<open>decompress\<close> restores the input.
\<close>

lemma lz77_round_trip:
  assumes "s \<noteq> []" and "\<forall>c \<in> set s. c < 256"
  shows "\<exists>b. Encoder_compress (Str s) (Some (JStr (js ''lz77''))) = Inr (Str b)
           \<and> Encoder_decompress (Str b) (Some (JStr (js ''lz77''))) = Str s"
proof -
  let ?c = "lz77_compress s 0 []"
  from atob_btoa[OF lz77_compress_bytes[OF assms(2), of 0]]
  have b: "btoa ?c = Inr (b64_encode ?c)" and a: "atob (b64_encode ?c) = Inr ?c" by simp_all
  from lz77_compress_nonempty[OF assms(1)] have ne: "b64_encode ?c \<noteq> []"
    by (simp add: b64_encode_Nil)
  from lz77_decompress_compress[of 0 s "[]"] have d: "lz77_decompress ?c 0 [] = s" by simp
  have "Encoder_compress (Str s) (Some (JStr (js ''lz77''))) = Inr (Str (b64_encode ?c))"
    using assms(1) b by (simp add: Encoder_compress_def)
  moreover have "Encoder_decompress (Str (b64_encode ?c)) (Some (JStr (js ''lz77''))) = Str s"
    using ne a d by (simp add: Encoder_decompress_def)
  ultimately show ?thesis by blast
qed

section \<open>Verified properties: round trips of the pipeline\<close>

lemma b64_char_not_colon: "i < 64 \<Longrightarrow> b64_char i \<noteq> 58"
  by (auto simp: b64_char_def)

lemma b64_encode_no_colon:
  "\<forall>c \<in> set bs. c < 256 \<Longrightarrow> 58 \<notin> set (b64_encode bs)"
proof (induction bs rule: b64_encode.induct)
  case 1
  then show ?case by simp
next
  case (2 a)
  then have a: "a < 256" by simp
  show ?case by (simp add: b64_char_not_colon sextet_bounds[OF a a a])
next
  case (3 a b)
  then have a: "a < 256" and b: "b < 256" by simp_all
  show ?case by (simp add: b64_char_not_colon sextet_bounds[OF a b b])
next
  case (4 a b c rest)
  then have a: "a < 256" and b: "b < 256" and c: "c < 256" by simp_all
  from 4 show ?case by (simp add: b64_char_not_colon sextet_bounds[OF a b c])
qed

text \<open>
  Where the round trip of the pipeline does hold: without encoders and with the
  sequence-match compression, \<open>reverse\<close> restores every non-empty input of code units up
  to 255, for every external processor whose base64 encoding of the configuration is
  free of delimiters and is decoded by \<open>atob\<close>. (The compressed payload is base64 text,
  which has no delimiter in it.)
\<close>

lemma reverse_of_process_lz77:
  assumes "encode_fn ext (Str (stringify (config_of (pipeline [] (js ''lz77''))))) (JStr (js ''base64''))
             = Inr (Str b)"
    and "atob b = Inr (js ''{\"e\":[],\"c\":\"lz77\",\"m\":{}}'')"
    and "58 \<notin> set b"
    and "s \<noteq> []" and "\<forall>c \<in> set s. c < 256"
  shows "\<exists>envelope. process ext (pipeline [] (js ''lz77'')) s = Inr (Str envelope)
           \<and> reverse processor envelope = Some (Str s)"
proof -
  let ?c = "lz77_compress s 0 []"
  let ?p = "b64_encode ?c"
  note bytes = lz77_compress_bytes[OF assms(5), of 0]
  from atob_btoa[OF bytes] have bt: "btoa ?c = Inr ?p" and ab: "atob ?p = Inr ?c" by simp_all
  have comp: "Encoder_compress (Str s) (Some (JStr (js ''lz77''))) = Inr (Str ?p)"
    using assms(4) bt by (simp add: Encoder_compress_def)
  have n: "js ''lz77'' \<noteq> js ''none''" by (simp add: js_def)
  have pr: "process ext (pipeline [] (js ''lz77'')) s = Inr (Str (b @ 58 # ?p))"
    using assms(1) comp n by (simp add: process_def pipeline_def to_text_def)
  from b64_encode_no_colon[OF bytes] have tw: "takeWhile (\<lambda>c. c \<noteq> 58) ?p = ?p"
    by (auto simp: takeWhile_eq_all_conv)
  have ne: "?p \<noteq> []" using lz77_compress_nonempty[OF assms(4)] by (simp add: b64_encode_Nil)
  from lz77_decompress_compress[of 0 s "[]"] have d: "lz77_decompress ?c 0 [] = s" by simp
  have dec: "Encoder_decompress (Str ?p) (Some (JStr (js ''lz77''))) = Str s"
    using ne ab d by (simp add: Encoder_decompress_def)
  have c: "Some (JStr (js ''lz77'')) \<noteq> Some (JStr (js ''none''))" using n by simp
  from reverse_body_decompress[OF assms(3) assms(2) parse_cfg_lz77 obj_get_cfg(1) c obj_get_cfg(2),
      of "wrapper processor" ?p]
  have "reverse processor (b @ 58 # ?p) = Some (Str s)"
    by (simp add: reverse_def tw dec)
  with pr show ?thesis by blast
qed

end
